theory Spec2Isabelle
  imports Main
begin

section \<open>Python strings: substring test and the token pattern\<close>

text \<open>
  The response bodies and URLs are Python \<open>str\<close> values; they are modelled as
  \<open>string\<close>, one \<open>char\<close> per character (code points below 256).
  \<open>str_in sub s\<close> is Python's \<open>sub in s\<close>.
\<close>

fun starts_with :: "string \<Rightarrow> string \<Rightarrow> bool" where
  "starts_with [] s = True"
| "starts_with (c # sub) [] = False"
| "starts_with (c # sub) (x # s) = (c = x \<and> starts_with sub s)"

fun str_in :: "string \<Rightarrow> string \<Rightarrow> bool" where
  "str_in sub [] = (sub = [])"
| "str_in sub (x # s) = (starts_with sub (x # s) \<or> str_in sub s)"

text \<open>
  The class \<open>\s\<close> of a \<open>str\<close> pattern: the characters for which
  \<open>str.isspace\<close> holds, here those below 256 (tab to carriage return, the
  separators 28 to 31, space, NEL and the no-break space).
\<close>

definition py_isspace :: "char \<Rightarrow> bool" where
  "py_isspace c =
     (let n = (of_char c :: nat)
      in (9 \<le> n \<and> n \<le> 13) \<or> (28 \<le> n \<and> n \<le> 32) \<or> n = 133 \<or> n = 160)"

text \<open>
  The fragment of regular expressions that the token pattern uses, matched the way
  \<open>re\<close> does: left to right, greedy, backtracking to a shorter repetition when the
  rest of the pattern fails. \<open>GroupPlus P\<close> is the capturing group \<open>([P]+)\<close>;
  \<open>GroupStar P\<close> is that group once its first character is taken. The third
  argument of \<open>match_here\<close> is the text captured by the group so far.
\<close>

datatype re_item =
    Chr char
  | StarSet "char \<Rightarrow> bool"
  | GroupPlus "char \<Rightarrow> bool"
  | GroupStar "char \<Rightarrow> bool"

fun match_here :: "re_item list \<Rightarrow> string \<Rightarrow> string \<Rightarrow> string option" where
  "match_here [] cs g = Some g"
| "match_here (Chr c # ps) [] g = None"
| "match_here (Chr c # ps) (x # cs) g = (if x = c then match_here ps cs g else None)"
| "match_here (StarSet P # ps) [] g = match_here ps [] g"
| "match_here (StarSet P # ps) (x # cs) g =
     (if P x
      then (case match_here (StarSet P # ps) cs g of
              Some r \<Rightarrow> Some r
            | None \<Rightarrow> match_here ps (x # cs) g)
      else match_here ps (x # cs) g)"
| "match_here (GroupPlus P # ps) [] g = None"
| "match_here (GroupPlus P # ps) (x # cs) g =
     (if P x then match_here (GroupStar P # ps) cs [x] else None)"
| "match_here (GroupStar P # ps) [] g = match_here ps [] g"
| "match_here (GroupStar P # ps) (x # cs) g =
     (if P x
      then (case match_here (GroupStar P # ps) cs (g @ [x]) of
              Some r \<Rightarrow> Some r
            | None \<Rightarrow> match_here ps (x # cs) g)
      else match_here ps (x # cs) g)"

text \<open>\<open>re.search\<close>: the match at the leftmost position that has one; the result is group 1.\<close>

fun re_search :: "re_item list \<Rightarrow> string \<Rightarrow> string option" where
  "re_search ps [] = match_here ps [] []"
| "re_search ps (x # cs) =
     (case match_here ps (x # cs) [] of
        Some g \<Rightarrow> Some g
      | None \<Rightarrow> re_search ps cs)"

definition dquote :: char where
  "dquote = CHR 0x22"

text \<open>The pattern \<^verbatim>\<open>"uvresp"\s*,\s*"([^"]+)"\<close> of \<open>request_handler\<close>.\<close>

definition uvresp_label :: string where
  "uvresp_label = dquote # ''uvresp'' @ [dquote]"

definition uvresp_pattern :: "re_item list" where
  "uvresp_pattern =
     map Chr uvresp_label @
     [StarSet py_isspace, Chr CHR '','', StarSet py_isspace,
      Chr dquote, GroupPlus (\<lambda>c. c \<noteq> dquote), Chr dquote]"


section \<open>The challenger, its collaborators and the trace of its actions\<close>

text \<open>
  The fields of \<open>AsyncChallenger\<close> (\<open>retried\<close> and \<open>retry_times\<close> are Python
  integers), together with two fields of the model: \<open>clock\<close> counts the awaits the
  challenger has made, and \<open>trace\<close> lists its actions in order.
\<close>

datatype event =
    ResetValues
  | HandleRecaptcha
  | DetectTiles string bool bool
  | Print string
  | Evaluate string
  | TextContent
  | QueryTiles
  | WaitForTimeout int
  | WaitForLabel
  | Screenshot
  | MouseClick int int
  | Click string

record challenger =
  click_timeout :: "int option"
  retry_times :: int
  retried :: int
  dynamic :: bool
  captcha_token :: string
  clock :: nat
  trace :: "event list"

text \<open>\<open>__init__\<close>: the handler registration is the \<open>deliver\<close> step of every await below.\<close>

definition AsyncChallenger :: "int option \<Rightarrow> int \<Rightarrow> challenger" where
  "AsyncChallenger ct rt =
     \<lparr>click_timeout = ct, retry_times = rt, retried = 0, dynamic = False,
      captcha_token = [], clock = 0, trace = []\<rparr>"

text \<open>
  What \<open>request.response()\<close> and \<open>response.text()\<close> give for one request: either
  call may raise, the response may be \<open>None\<close>, or the body is read.
\<close>

datatype response_result = ResponseRaises | NoResponse | TextRaises | Body string

record request =
  url :: string
  response :: response_result

datatype eval_result = Value string | PlaywrightError

datatype text_result = Text "string option" | TimeoutError

type_synonym image = nat

text \<open>
  The page, the frame and the detector. A collaborator that is awaited is asked at the
  value of \<open>clock\<close> at which the await starts; \<open>requests_at\<close> gives the requests
  whose response body arrives during that await. The calls that wait for an element
  can time out: \<open>text_content\<close>, \<open>wait_for\<close> and the three clicks on a locator
  (\<open>click_times_out_at\<close> says so for the selector clicked); \<open>evaluate\<close> can raise
  a \<open>PlaywrightError\<close>; every other call returns.
\<close>

record world =
  requests_at :: "nat \<Rightarrow> request list"
  text_content_at :: "nat \<Rightarrow> text_result"
  tile_count_at :: "nat \<Rightarrow> nat"
  screenshot_at :: "nat \<Rightarrow> image"
  detect :: "string \<Rightarrow> image \<Rightarrow> bool \<Rightarrow> bool list \<times> (int \<times> int) list"
  evaluate_at :: "nat \<Rightarrow> string \<Rightarrow> eval_result"
  click_times_out_at :: "nat \<Rightarrow> string \<Rightarrow> bool"
  label_visible_at :: "nat \<Rightarrow> bool"

datatype pyval = Str string | Flag bool

text \<open>
  The exceptions that leave \<open>handle_recaptcha\<close>: the two the source raises, and the
  \<open>TimeoutError\<close> of Playwright where the source does not catch it (the click of
  \<open>retry\<close>).
\<close>

datatype error = RecursionError | ValueError | PlaywrightTimeoutError

type_synonym outcome = "(error + pyval) \<times> challenger"

fun truthy :: "pyval \<Rightarrow> bool" where
  "truthy (Str t) = (t \<noteq> [])"
| "truthy (Flag b) = b"

section \<open>The network observer\<close>

definition request_handler :: "request \<Rightarrow> challenger \<Rightarrow> challenger" where
  "request_handler req s =
     (if (\<not> str_in ''google.com'' (url req) \<and> \<not> str_in ''recaptcha.net'' (url req))
         \<or> (\<not> str_in ''reload'' (url req) \<and> \<not> str_in ''userverify'' (url req))
      then s
      else
        (case response req of
           Body response_text \<Rightarrow>
             (let s1 = s\<lparr>dynamic := str_in ''dynamic'' response_text\<rparr>
              in if str_in ''userverify'' (url req) \<and> \<not> str_in ''rresp'' response_text
                    \<and> \<not> str_in ''bgdata'' response_text
                 then (case re_search uvresp_pattern response_text of
                         None \<Rightarrow> s1
                       | Some token \<Rightarrow> s1\<lparr>captcha_token := token\<rparr>)
                 else s1)
         | _ \<Rightarrow> s))"

text \<open>
  An await: the action is recorded, the handlers of the responses that arrive meanwhile
  run (each from its \<open>response.text()\<close> to its end without suspending), and the clock
  advances.
\<close>

definition log :: "event \<Rightarrow> challenger \<Rightarrow> challenger" where
  "log e s = s\<lparr>trace := trace s @ [e]\<rparr>"

definition deliver :: "world \<Rightarrow> challenger \<Rightarrow> challenger" where
  "deliver w s = (fold request_handler (requests_at w (clock s)) s)\<lparr>clock := clock s + 1\<rparr>"

definition await :: "world \<Rightarrow> event \<Rightarrow> challenger \<Rightarrow> challenger" where
  "await w e s = deliver w (log e s)"

definition evaluate :: "world \<Rightarrow> string \<Rightarrow> challenger \<Rightarrow> eval_result \<times> challenger" where
  "evaluate w script s = (evaluate_at w (clock s) script, await w (Evaluate script) s)"

definition text_content :: "world \<Rightarrow> challenger \<Rightarrow> text_result \<times> challenger" where
  "text_content w s = (text_content_at w (clock s), await w TextContent s)"

definition query_tiles :: "world \<Rightarrow> challenger \<Rightarrow> nat \<times> challenger" where
  "query_tiles w s = (tile_count_at w (clock s), await w QueryTiles s)"

definition wait_for_timeout :: "world \<Rightarrow> int \<Rightarrow> challenger \<Rightarrow> challenger" where
  "wait_for_timeout w ms s = await w (WaitForTimeout ms) s"

definition click :: "world \<Rightarrow> string \<Rightarrow> challenger \<Rightarrow> bool \<times> challenger" where
  "click w selector s = (click_times_out_at w (clock s) selector, await w (Click selector) s)"

section \<open>The operations of the challenger\<close>

definition check_result :: "world \<Rightarrow> challenger \<Rightarrow> string option \<times> challenger" where
  "check_result w s =
     (let (r1, s1) = evaluate w ''grecaptcha.getResponse()'' s
      in case r1 of
           Value token \<Rightarrow> (Some token, s1)
         | PlaywrightError \<Rightarrow>
             (let (r2, s2) = evaluate w ''grecaptcha.enterprise.getResponse()'' s1
              in case r2 of
                   Value enterprise_token \<Rightarrow> (Some enterprise_token, s2)
                 | PlaywrightError \<Rightarrow> (None, s2)))"

definition check_captcha_visible :: "world \<Rightarrow> challenger \<Rightarrow> bool \<times> challenger" where
  "check_captcha_visible w s = (label_visible_at w (clock s), await w WaitForLabel s)"

definition click_checkbox :: "world \<Rightarrow> challenger \<Rightarrow> bool \<times> challenger" where
  "click_checkbox w s =
     (let (timed_out, s1) = click w ''.recaptcha-checkbox-border'' s
      in (\<not> timed_out, s1))"

definition reset_values :: "challenger \<Rightarrow> challenger" where
  "reset_values s = log ResetValues (s\<lparr>dynamic := False, captcha_token := []\<rparr>)"

fun click_coordinates :: "world \<Rightarrow> (int \<times> int) list \<Rightarrow> challenger \<Rightarrow> challenger" where
  "click_coordinates w [] s = s"
| "click_coordinates w ((coord_x, coord_y) # coordinates) s =
     (let s1 = await w (MouseClick coord_x coord_y) s;
          s2 = (case click_timeout s1 of
                  None \<Rightarrow> s1
                | Some t \<Rightarrow> if t \<noteq> 0 then wait_for_timeout w t s1 else s1)
      in click_coordinates w coordinates s2)"

text \<open>
  \<open>retry\<close> and \<open>detect_tiles\<close> call \<open>handle_recaptcha\<close> back; the argument \<open>H\<close>
  stands for that call. The frame locator they pass around is always the one of the
  challenge frame and is left out.
\<close>

definition retry ::
  "world \<Rightarrow> (challenger \<Rightarrow> outcome option) \<Rightarrow> bool \<Rightarrow> challenger \<Rightarrow> outcome option" where
  "retry w H verify s =
     (let s1 = s\<lparr>retried := retried s + 1\<rparr>
      in if retry_times s1 \<le> retried s1 then Some (Inl RecursionError, s1)
         else
           (let s2 = reset_values s1;
                (timed_out, s3) =
                  (if verify then click w ''#recaptcha-verify-button'' s2
                   else click w ''#recaptcha-reload-button''
                          (log (Print ''[INFO] Reloading Captcha and Retrying'') s2))
            in if timed_out then Some (Inl PlaywrightTimeoutError, s3) else H s3))"

definition detect_tiles ::
  "world \<Rightarrow> (challenger \<Rightarrow> outcome option) \<Rightarrow> string \<Rightarrow> bool \<Rightarrow> bool \<Rightarrow> challenger
     \<Rightarrow> outcome option" where
  "detect_tiles w H prompt area_captcha verify s =
     (let s0 = log (DetectTiles prompt area_captcha verify) s;
          image = screenshot_at w (clock s0);
          s1 = await w Screenshot s0;
          (response, coordinates) = detect w prompt image area_captcha
      in if True \<notin> set response
         then (if \<not> verify
               then retry w H verify
                      (log (Print ''[ERROR] Detector did not return any Results.'') s1)
               else Some (Inr (Flag False), s1))
         else Some (Inr (Flag True), click_coordinates w coordinates s1))"

text \<open>The grid polling loop of \<open>handle_recaptcha\<close>: \<open>k\<close> iterations are left.\<close>

fun poll_loop :: "world \<Rightarrow> nat \<Rightarrow> nat \<Rightarrow> challenger \<Rightarrow> nat \<times> challenger" where
  "poll_loop w 0 tiles s = (tiles, s)"
| "poll_loop w (Suc k) tiles s =
     (if tiles = 9 \<or> tiles = 16 then (tiles, s)
      else (let (tiles', s1) = query_tiles w (wait_for_timeout w 1000 s)
            in poll_loop w k tiles' s1))"

definition poll_tiles :: "world \<Rightarrow> challenger \<Rightarrow> nat \<times> challenger" where
  "poll_tiles w s = (let (tiles, s1) = query_tiles w s in poll_loop w 10 tiles s1)"

text \<open>
  The loop \<open>while not_yet_passed\<close>; it has no bound of its own, so it runs on fuel and
  \<open>None\<close> is the loop that has not ended when the fuel has.
\<close>

fun dynamic_loop ::
  "world \<Rightarrow> nat \<Rightarrow> (challenger \<Rightarrow> outcome option) \<Rightarrow> string \<Rightarrow> bool \<Rightarrow> pyval \<Rightarrow> challenger
     \<Rightarrow> outcome option" where
  "dynamic_loop w 0 H prompt area_captcha not_yet_passed s =
     (if truthy not_yet_passed then None else Some (Inr not_yet_passed, s))"
| "dynamic_loop w (Suc n) H prompt area_captcha not_yet_passed s =
     (if truthy not_yet_passed
      then (case detect_tiles w H prompt area_captcha True (wait_for_timeout w 5000 s) of
              None \<Rightarrow> None
            | Some (Inl e, s1) \<Rightarrow> Some (Inl e, s1)
            | Some (Inr r, s1) \<Rightarrow> dynamic_loop w n H prompt area_captcha r s1)
      else Some (Inr not_yet_passed, s))"

definition submit :: "world \<Rightarrow> challenger \<Rightarrow> challenger" where
  "submit w s =
     (let (timed_out, s1) = click w ''#recaptcha-verify-button'' s
      in if timed_out
         then (let (visible, s2) = check_captcha_visible w s1
               in if visible
                  then log (Print ''[WARNING] Could not submit challenge. Verify Button did not load.'') s2
                  else s2)
         else s1)"

text \<open>The token wait of \<open>handle_recaptcha\<close>: \<open>k\<close> polls are left.\<close>

fun token_wait :: "world \<Rightarrow> nat \<Rightarrow> challenger \<Rightarrow> string option \<times> challenger" where
  "token_wait w 0 s = (None, s)"
| "token_wait w (Suc k) s =
     (if captcha_token s \<noteq> [] then (Some (captcha_token s), s)
      else (let (r, s1) = check_result w s
            in case r of
                 None \<Rightarrow> token_wait w k (wait_for_timeout w 1000 s1)
               | Some t \<Rightarrow>
                   if t \<noteq> [] then (Some t, s1)
                   else token_wait w k (wait_for_timeout w 1000 s1)))"

text \<open>
  The end of \<open>handle_recaptcha\<close>, from the test for a token that the detection has
  returned: the submit, the token wait and the retry after an exhausted token wait.
  \<open>H\<close> is the recursive call of \<open>handle_recaptcha\<close>.
\<close>

definition submit_and_wait ::
  "world \<Rightarrow> (challenger \<Rightarrow> outcome option) \<Rightarrow> pyval \<Rightarrow> challenger \<Rightarrow> outcome option" where
  "submit_and_wait w H not_yet_passed s =
     (case not_yet_passed of
        Str token \<Rightarrow> Some (Inr (Str token), s)
      | Flag _ \<Rightarrow>
          (let (r, s2) = token_wait w 5 (submit w s)
           in case r of
                Some token \<Rightarrow> Some (Inr (Str token), s2)
              | None \<Rightarrow>
                  (let s3 = s2\<lparr>retried := retried s2 + 1\<rparr>
                   in if retry_times s3 \<le> retried s3
                      then Some (Inl RecursionError, s3)
                      else H s3)))"

text \<open>
  \<open>handle_recaptcha\<close> from the dynamic loop to its end, entered when the first
  \<open>detect_tiles\<close> call has returned \<open>first_pass\<close>; \<open>n\<close> is the fuel of the
  dynamic loop.
\<close>

definition after_detection ::
  "world \<Rightarrow> (challenger \<Rightarrow> outcome option) \<Rightarrow> nat \<Rightarrow> string \<Rightarrow> bool \<Rightarrow> pyval \<Rightarrow> challenger
     \<Rightarrow> outcome option" where
  "after_detection w H n prompt area_captcha first_pass s =
     (case (if dynamic s \<and> \<not> area_captcha
            then dynamic_loop w n H prompt area_captcha first_pass s
            else Some (Inr first_pass, s)) of
        None \<Rightarrow> None
      | Some (Inl e, s1) \<Rightarrow> Some (Inl e, s1)
      | Some (Inr not_yet_passed, s1) \<Rightarrow> submit_and_wait w H not_yet_passed s1)"

text \<open>The body of \<open>handle_recaptcha\<close> up to the first \<open>detect_tiles\<close> call.\<close>

definition cycle ::
  "world \<Rightarrow> (challenger \<Rightarrow> outcome option) \<Rightarrow> nat \<Rightarrow> challenger \<Rightarrow> outcome option" where
  "cycle w H n s =
     (let (label, s1) = text_content w (log HandleRecaptcha s)
      in case label of
           TimeoutError \<Rightarrow>
             (let (r, s2) = check_result w s1;
                  failed = Some (Inr (Flag False),
                                 log (Print ''[ERROR] reCaptcha Frame did not load.'') s2)
              in case r of
                   None \<Rightarrow> failed
                 | Some token \<Rightarrow>
                     if token \<noteq> [] then Some (Inr (Str token), s2)
                     else failed)
         | Text None \<Rightarrow> Some (Inl ValueError, s1)
         | Text (Some prompt) \<Rightarrow>
             if prompt = [] then Some (Inl ValueError, s1)
             else
               (let (tiles, s2) = poll_tiles w s1;
                    area_captcha = (tiles = 16)
                in case detect_tiles w H prompt area_captcha area_captcha s2 of
                     None \<Rightarrow> None
                   | Some (Inl e, s3) \<Rightarrow> Some (Inl e, s3)
                   | Some (Inr first_pass, s3) \<Rightarrow>
                       after_detection w H n prompt area_captcha first_pass s3))"

primrec handle_recaptcha :: "world \<Rightarrow> nat \<Rightarrow> challenger \<Rightarrow> outcome option" where
  "handle_recaptcha w 0 = (\<lambda>s. None)"
| "handle_recaptcha w (Suc n) = (\<lambda>s. cycle w (handle_recaptcha w n) n s)"

definition solve_recaptcha :: "world \<Rightarrow> nat \<Rightarrow> challenger \<Rightarrow> outcome option" where
  "solve_recaptcha w n s =
     (let s1 = reset_values s;
          (_, s2) = click_checkbox w s1;
          (visible, s3) = check_captcha_visible w s2
      in if \<not> visible
         then Some (Inr (Flag False),
                    log (Print ''[ERROR] reCaptcha Challenge is not visible.'') s3)
         else handle_recaptcha w n (wait_for_timeout w 2000 s3))"


section \<open>Definitions used to state the properties\<close>

text \<open>
  A labelled token field as the pattern describes it: the label, white space, a comma,
  white space and the quoted token. \<open>field_at pre body\<close> says that such a field
  starts in \<open>body\<close> right after \<open>pre\<close>.
\<close>

definition uvresp_field :: "string \<Rightarrow> string \<Rightarrow> string \<Rightarrow> string" where
  "uvresp_field ws1 ws2 tok = uvresp_label @ ws1 @ CHR '','' # ws2 @ dquote # tok @ [dquote]"

definition field_at :: "string \<Rightarrow> string \<Rightarrow> bool" where
  "field_at pre body \<longleftrightarrow>
     (\<exists>ws1 ws2 tok post. body = pre @ uvresp_field ws1 ws2 tok @ post \<and>
        list_all py_isspace ws1 \<and> list_all py_isspace ws2 \<and> tok \<noteq> [] \<and> dquote \<notin> set tok)"

text \<open>The actions that a call adds to the trace: those of \<open>s'\<close> after those of \<open>s\<close>.\<close>

definition new_events :: "challenger \<Rightarrow> challenger \<Rightarrow> event list" where
  "new_events s s' = drop (length (trace s)) (trace s')"

text \<open>
  What a pass without match that is not in verify mode adds to the trace before the
  cycle runs again: its notice, then what \<open>retry\<close> adds: the reset of the two
  fields, the notice of the reload and the click on the reload control.
\<close>

definition reload_block :: "event list" where
  "reload_block =
     [Print ''[ERROR] Detector did not return any Results.'', ResetValues,
      Print ''[INFO] Reloading Captcha and Retrying'', Click ''#recaptcha-reload-button'']"

text \<open>
  A stretch of the trace is quiet when no cycle starts in it, the two fields are not
  reset in it and the reload control is not clicked in it; a quiet step adds a quiet
  stretch and leaves the retry counter, the limit and the click pacing alone.
\<close>

definition quiet :: "event list \<Rightarrow> bool" where
  "quiet q = (HandleRecaptcha \<notin> set q \<and> ResetValues \<notin> set q
              \<and> Click ''#recaptcha-reload-button'' \<notin> set q)"

definition quiet_step :: "challenger \<Rightarrow> challenger \<Rightarrow> bool" where
  "quiet_step s s' \<longleftrightarrow>
     (\<exists>q. trace s' = trace s @ q \<and> quiet q) \<and> retry_times s' = retry_times s
     \<and> retried s' = retried s \<and> click_timeout s' = click_timeout s"

text \<open>The trace only grows.\<close>

definition extends :: "challenger \<Rightarrow> challenger \<Rightarrow> bool" where
  "extends s s' \<longleftrightarrow> (\<exists>evs. trace s' = trace s @ evs)"

text \<open>
  The starts of the cycles in a stretch of the trace, given the trace \<open>h\<close> before
  it: every cycle starts right after a reload block or right after a wait of one second
  (the last action of an exhausted token wait).
\<close>

definition after_reload :: "event list \<Rightarrow> bool" where
  "after_reload h = (drop (length h - 4) h = reload_block)"

definition after_wait :: "event list \<Rightarrow> bool" where
  "after_wait h = (h \<noteq> [] \<and> last h = WaitForTimeout 1000)"

fun restarts_ok :: "event list \<Rightarrow> event list \<Rightarrow> bool" where
  "restarts_ok h [] = True"
| "restarts_ok h (e # es) =
     ((if e = HandleRecaptcha then after_reload h \<or> after_wait h else True)
      \<and> restarts_ok (h @ [e]) es)"

text \<open>A stretch that begins with the start of a cycle, every later start being as above.\<close>

definition restarting :: "event list \<Rightarrow> bool" where
  "restarting evs \<longleftrightarrow>
     (\<exists>rest. evs = HandleRecaptcha # rest \<and> (\<forall>h. restarts_ok (h @ [HandleRecaptcha]) rest))"

text \<open>
  Every reset of the two fields in a stretch of the trace lies in a reload block: it
  comes right after the notice of a pass without match, and it is followed by the notice
  of the reload and the click on the reload control. The first argument is the action
  before the stretch.
\<close>

fun resets_paired :: "event \<Rightarrow> event list \<Rightarrow> bool" where
  "resets_paired before [] = True"
| "resets_paired before (e # es) =
     ((if e = ResetValues
       then before = Print ''[ERROR] Detector did not return any Results.''
            \<and> take 2 es = [Print ''[INFO] Reloading Captcha and Retrying'',
                             Click ''#recaptcha-reload-button'']
       else True)
      \<and> resets_paired e es)"

text \<open>
  The passes of the dynamic loop in a stretch of the trace: every \<open>detect_tiles\<close> call
  in it is in verify mode, for the given prompt and grid, and comes right after a wait
  of five seconds. The first argument is the action before the stretch.
\<close>

fun is_detect :: "event \<Rightarrow> bool" where
  "is_detect (DetectTiles prompt area verify) = True"
| "is_detect e = False"

fun verify_passes :: "event \<Rightarrow> string \<Rightarrow> bool \<Rightarrow> event list \<Rightarrow> bool" where
  "verify_passes before prompt area [] = True"
| "verify_passes before prompt area (e # es) =
     ((if is_detect e
       then e = DetectTiles prompt area True \<and> before = WaitForTimeout 5000
       else True)
      \<and> verify_passes e prompt area es)"

definition no_detect :: "event list \<Rightarrow> bool" where
  "no_detect q = (\<forall>e \<in> set q. \<not> is_detect e)"

section \<open>The shape of the trace of a call\<close>

text \<open>
  The shape of what one call of \<open>handle_recaptcha\<close> adds to the trace, with the
  retry counter before and after it and its result: \<open>cyc w rt a evs r b\<close> for a whole
  call under the limit \<open>rt\<close>, \<open>front w rt a f v b\<close> for the part of a cycle up to
  the return of its first \<open>detect_tiles\<close> call with the value \<open>v\<close>. The rules
  follow the paths of the source: the label that does not resolve, the prompt that is
  missing, the limit reached in \<open>retry\<close>, the click of \<open>retry\<close> that times out,
  an error raised by the cycle that \<open>retry\<close> runs, the token passed on from that
  cycle, the token found by the token wait, the limit reached after the token wait, and
  the cycle run again after it.
\<close>

inductive cyc :: "world \<Rightarrow> int \<Rightarrow> int \<Rightarrow> event list \<Rightarrow> error + pyval \<Rightarrow> int \<Rightarrow> bool"
  and front :: "world \<Rightarrow> int \<Rightarrow> int \<Rightarrow> event list \<Rightarrow> pyval \<Rightarrow> int \<Rightarrow> bool"
  for w :: world and rt :: int
where
  no_frame:
    "quiet q \<Longrightarrow> v = Flag False \<or> (\<exists>t. t \<noteq> [] \<and> v = Str t)
       \<Longrightarrow> cyc w rt a (HandleRecaptcha # q) (Inr v) a"
| no_prompt:
    "text_content_at w t = Text None \<or> text_content_at w t = Text (Some [])
       \<Longrightarrow> cyc w rt a [HandleRecaptcha, TextContent] (Inl ValueError) a"
| detect_limit:
    "quiet q \<Longrightarrow> rt \<le> a + 1 \<Longrightarrow> cyc w rt a (HandleRecaptcha # q) (Inl RecursionError) (a + 1)"
| reload_timeout:
    "quiet q \<Longrightarrow> a + 1 < rt \<Longrightarrow> click_times_out_at w t ''#recaptcha-reload-button''
       \<Longrightarrow> cyc w rt a (HandleRecaptcha # q @ reload_block) (Inl PlaywrightTimeoutError) (a + 1)"
| detect_raised:
    "quiet q \<Longrightarrow> a + 1 < rt \<Longrightarrow> cyc w rt (a + 1) e2 (Inl e) b
       \<Longrightarrow> cyc w rt a (HandleRecaptcha # q @ reload_block @ e2) (Inl e) b"
| front_plain:
    "quiet q \<Longrightarrow> front w rt a (HandleRecaptcha # q) (Flag x) a"
| front_retried:
    "quiet q \<Longrightarrow> a + 1 < rt \<Longrightarrow> cyc w rt (a + 1) e2 (Inr v) b
       \<Longrightarrow> front w rt a (HandleRecaptcha # q @ reload_block @ e2) v b"
| inner_token:
    "front w rt a f (Str t) b \<Longrightarrow> cyc w rt a f (Inr (Str t)) b"
| token_found:
    "front w rt a f v b \<Longrightarrow> quiet q \<Longrightarrow> t \<noteq> [] \<Longrightarrow> cyc w rt a (f @ q) (Inr (Str t)) b"
| wait_limit:
    "front w rt a f v b \<Longrightarrow> quiet q \<Longrightarrow> rt \<le> b + 1
       \<Longrightarrow> cyc w rt a (f @ q @ [WaitForTimeout 1000]) (Inl RecursionError) (b + 1)"
| wait_restart:
    "front w rt a f v b \<Longrightarrow> quiet q \<Longrightarrow> b + 1 < rt \<Longrightarrow> cyc w rt (b + 1) e2 r c
       \<Longrightarrow> cyc w rt a (f @ q @ WaitForTimeout 1000 # e2) r c"

text \<open>A call from \<open>s\<close> to \<open>s'\<close> with result \<open>r\<close> that has this shape.\<close>

definition cyc_run :: "world \<Rightarrow> challenger \<Rightarrow> error + pyval \<Rightarrow> challenger \<Rightarrow> bool" where
  "cyc_run w s r s' \<longleftrightarrow>
     (\<exists>evs. trace s' = trace s @ evs \<and> cyc w (retry_times s) (retried s) evs r (retried s'))
     \<and> retry_times s' = retry_times s"

definition front_run :: "world \<Rightarrow> challenger \<Rightarrow> pyval \<Rightarrow> challenger \<Rightarrow> bool" where
  "front_run w s v s' \<longleftrightarrow>
     (\<exists>f. trace s' = trace s @ f \<and> front w (retry_times s) (retried s) f v (retried s'))
     \<and> retry_times s' = retry_times s"

definition sound_call :: "world \<Rightarrow> (challenger \<Rightarrow> outcome option) \<Rightarrow> bool" where
  "sound_call w H \<longleftrightarrow> (\<forall>s r s'. H s = Some (r, s') \<longrightarrow> cyc_run w s r s')"


text \<open>
  The effect of one action of the trace on the challenger: a reset sets the two fields
  to false and to the empty string; the start of a cycle, the start of a
  \<open>detect_tiles\<close> call and a notice change nothing but the trace; every other action
  is an await, during which the network observer runs.
\<close>

fun replay_event :: "world \<Rightarrow> event \<Rightarrow> challenger \<Rightarrow> challenger" where
  "replay_event w ResetValues s = log ResetValues (s\<lparr>dynamic := False, captcha_token := []\<rparr>)"
| "replay_event w HandleRecaptcha s = log HandleRecaptcha s"
| "replay_event w (DetectTiles prompt area verify) s = log (DetectTiles prompt area verify) s"
| "replay_event w (Print message) s = log (Print message) s"
| "replay_event w e s = await w e s"

definition replay :: "world \<Rightarrow> event list \<Rightarrow> challenger \<Rightarrow> challenger" where
  "replay w evs s = fold (replay_event w) evs s"

text \<open>
  From \<open>s\<close> to \<open>s'\<close> nothing but the actions on the trace and the increments of the
  retry counter has changed the challenger.
\<close>

definition replays :: "world \<Rightarrow> challenger \<Rightarrow> challenger \<Rightarrow> bool" where
  "replays w s s' \<longleftrightarrow>
     (\<exists>evs. trace s' = trace s @ evs \<and> s' = (replay w evs s)\<lparr>retried := retried s'\<rparr>)"

definition replays_call :: "world \<Rightarrow> (challenger \<Rightarrow> outcome option) \<Rightarrow> bool" where
  "replays_call w H \<longleftrightarrow> (\<forall>s r s'. H s = Some (r, s') \<longrightarrow> replays w s s')"

section \<open>Concrete scenarios\<close>

text \<open>A verification response that carries a token, and a reload response of a dynamic challenge.\<close>

definition userverify_request :: request where
  "userverify_request =
     \<lparr>url = ''https://www.google.com/recaptcha/api2/userverify?k=6Lc'',
      response = Body (''['' @ uvresp_field [] '' '' ''03AGdBq2'' @ '',1,120]'')\<rparr>"

definition reload_request :: request where
  "reload_request =
     \<lparr>url = ''https://www.google.com/recaptcha/api2/reload?k=6Lc'',
      response = Body ''[rresp,03AFcWeA,null,120,[dynamic],bgdata]''\<rparr>"

text \<open>A page whose standard accessor answers with the empty string.\<close>

definition world_empty_response :: world where
  "world_empty_response =
     \<lparr>requests_at = (\<lambda>t. []), text_content_at = (\<lambda>t. TimeoutError),
      tile_count_at = (\<lambda>t. 0), screenshot_at = (\<lambda>t. t),
      detect = (\<lambda>prompt img area. ([], [])),
      evaluate_at = (\<lambda>t script. if script = ''grecaptcha.getResponse()'' then Value []
                                 else Value ''03AGdBq2''),
      click_times_out_at = (\<lambda>t selector. False), label_visible_at = (\<lambda>t. True)\<rparr>"

text \<open>The detector never finds a match and the page exposes no token.\<close>

definition world_no_match :: world where
  "world_no_match =
     \<lparr>requests_at = (\<lambda>t. []), text_content_at = (\<lambda>t. Text (Some ''cars'')),
      tile_count_at = (\<lambda>t. 9), screenshot_at = (\<lambda>t. t),
      detect = (\<lambda>prompt img area. ([], [])),
      evaluate_at = (\<lambda>t script. PlaywrightError),
      click_times_out_at = (\<lambda>t selector. False), label_visible_at = (\<lambda>t. True)\<rparr>"

text \<open>
  The detector finds a match, the standard accessor answers with the empty string, and
  the label does not resolve from clock 10 on.
\<close>

definition world_no_token :: world where
  "world_no_token =
     \<lparr>requests_at = (\<lambda>t. []),
      text_content_at = (\<lambda>t. if t < 10 then Text (Some ''cars'') else TimeoutError),
      tile_count_at = (\<lambda>t. 9), screenshot_at = (\<lambda>t. t),
      detect = (\<lambda>prompt img area. ([True], [(120, 250)])),
      evaluate_at = (\<lambda>t script. if script = ''grecaptcha.getResponse()'' then Value []
                                 else PlaywrightError),
      click_times_out_at = (\<lambda>t selector. False), label_visible_at = (\<lambda>t. True)\<rparr>"

text \<open>The frame resolves and its prompt is empty.\<close>

definition world_empty_prompt :: world where
  "world_empty_prompt =
     \<lparr>requests_at = (\<lambda>t. []), text_content_at = (\<lambda>t. Text (Some [])),
      tile_count_at = (\<lambda>t. 9), screenshot_at = (\<lambda>t. t),
      detect = (\<lambda>prompt img area. ([True], [(120, 250)])),
      evaluate_at = (\<lambda>t script. PlaywrightError),
      click_times_out_at = (\<lambda>t selector. False), label_visible_at = (\<lambda>t. True)\<rparr>"

text \<open>
  The detector never finds a match; the label read at clock 7, after the first reload,
  does not resolve, and the standard accessor then gives the token.
\<close>

definition world_token_after_reload :: world where
  "world_token_after_reload =
     \<lparr>requests_at = (\<lambda>t. []),
      text_content_at = (\<lambda>t. if t = 7 then TimeoutError else Text (Some ''cars'')),
      tile_count_at = (\<lambda>t. 9), screenshot_at = (\<lambda>t. t),
      detect = (\<lambda>prompt img area. ([], [])),
      evaluate_at = (\<lambda>t script. if script = ''grecaptcha.getResponse()'' then Value ''03AGdBq2''
                                 else PlaywrightError),
      click_times_out_at = (\<lambda>t selector. False), label_visible_at = (\<lambda>t. True)\<rparr>"

text \<open>
  A dynamic challenge of nine tiles: the reload response arrives while the checkbox is
  clicked, the first screenshot (taken at clock 5) has one match and no later one has.
\<close>

definition world_dynamic :: world where
  "world_dynamic =
     \<lparr>requests_at = (\<lambda>t. if t = 0 then [reload_request] else []),
      text_content_at = (\<lambda>t. Text (Some ''cars'')),
      tile_count_at = (\<lambda>t. 9), screenshot_at = (\<lambda>t. t),
      detect = (\<lambda>prompt img area. if img = 5 then ([True], [(120, 250)]) else ([], [])),
      evaluate_at = (\<lambda>t script. if script = ''grecaptcha.getResponse()''
                                 then Value ''03AGdBq2'' else PlaywrightError),
      click_times_out_at = (\<lambda>t selector. False), label_visible_at = (\<lambda>t. True)\<rparr>"

text \<open>
  The token arrives on the network during the last wait of the token wait (clock 22);
  the page accessors raise, and the label of the next cycle does not resolve.
\<close>

definition world_late_token :: world where
  "world_late_token =
     \<lparr>requests_at = (\<lambda>t. if t = 22 then [userverify_request] else []),
      text_content_at = (\<lambda>t. if t < 10 then Text (Some ''cars'') else TimeoutError),
      tile_count_at = (\<lambda>t. 9), screenshot_at = (\<lambda>t. t),
      detect = (\<lambda>prompt img area. ([True], [(120, 250)])),
      evaluate_at = (\<lambda>t script. PlaywrightError),
      click_times_out_at = (\<lambda>t selector. False), label_visible_at = (\<lambda>t. True)\<rparr>"

text \<open>A grid that shows 0, 0, 4 and then 16 tiles.\<close>

definition world_slow_grid :: world where
  "world_slow_grid =
     \<lparr>requests_at = (\<lambda>t. []),
      text_content_at = (\<lambda>t. if t < 10 then Text (Some ''cars'') else TimeoutError),
      tile_count_at = (\<lambda>t. if t < 4 then 0 else if t < 6 then 4 else 16),
      screenshot_at = (\<lambda>t. t),
      detect = (\<lambda>prompt img area. ([True], [(120, 250)])),
      evaluate_at = (\<lambda>t script. if script = ''grecaptcha.getResponse()''
                                 then Value ''03AGdBq2'' else PlaywrightError),
      click_times_out_at = (\<lambda>t selector. False), label_visible_at = (\<lambda>t. True)\<rparr>"

text \<open>
  The detector never finds a match, and the click on the reload control times out.
\<close>

definition world_reload_times_out :: world where
  "world_reload_times_out =
     \<lparr>requests_at = (\<lambda>t. []), text_content_at = (\<lambda>t. Text (Some ''cars'')),
      tile_count_at = (\<lambda>t. 9), screenshot_at = (\<lambda>t. t),
      detect = (\<lambda>prompt img area. ([], [])),
      evaluate_at = (\<lambda>t script. PlaywrightError),
      click_times_out_at = (\<lambda>t selector. selector = ''#recaptcha-reload-button''),
      label_visible_at = (\<lambda>t. True)\<rparr>"

text \<open>The states in which the concrete runs below end.\<close>

definition limit_once :: challenger where
  "limit_once =
     \<lparr>click_timeout = None, retry_times = 1, retried = 1, dynamic = False,
      captcha_token = [], clock = 6,
      trace =
        [ResetValues, Click ''.recaptcha-checkbox-border'', WaitForLabel,
         WaitForTimeout 2000, HandleRecaptcha, TextContent, QueryTiles,
         DetectTiles ''cars'' False False, Screenshot,
         Print ''[ERROR] Detector did not return any Results.'']\<rparr>"

definition limit_twice :: challenger where
  "limit_twice =
     \<lparr>click_timeout = None, retry_times = 1, retried = 2, dynamic = False,
      captcha_token = [], clock = 12,
      trace =
        [ResetValues, Click ''.recaptcha-checkbox-border'', WaitForLabel,
         WaitForTimeout 2000, HandleRecaptcha, TextContent, QueryTiles,
         DetectTiles ''cars'' False False, Screenshot,
         Print ''[ERROR] Detector did not return any Results.'',
         ResetValues, Click ''.recaptcha-checkbox-border'', WaitForLabel,
         WaitForTimeout 2000, HandleRecaptcha, TextContent, QueryTiles,
         DetectTiles ''cars'' False False, Screenshot,
         Print ''[ERROR] Detector did not return any Results.'']\<rparr>"

definition reset_twice :: challenger where
  "reset_twice =
     \<lparr>click_timeout = None, retry_times = 2, retried = 2, dynamic = False,
      captcha_token = [], clock = 10,
      trace =
        [ResetValues, Click ''.recaptcha-checkbox-border'', WaitForLabel,
         WaitForTimeout 2000, HandleRecaptcha, TextContent, QueryTiles,
         DetectTiles ''cars'' False False, Screenshot,
         Print ''[ERROR] Detector did not return any Results.'',
         ResetValues, Print ''[INFO] Reloading Captcha and Retrying'',
         Click ''#recaptcha-reload-button'', HandleRecaptcha, TextContent,
         QueryTiles, DetectTiles ''cars'' False False, Screenshot,
         Print ''[ERROR] Detector did not return any Results.'']\<rparr>"

definition solved_after_reload :: challenger where
  "solved_after_reload =
     \<lparr>click_timeout = None, retry_times = 3, retried = 1, dynamic = False,
      captcha_token = [], clock = 9,
      trace =
        [ResetValues, Click ''.recaptcha-checkbox-border'', WaitForLabel,
         WaitForTimeout 2000, HandleRecaptcha, TextContent, QueryTiles,
         DetectTiles ''cars'' False False, Screenshot,
         Print ''[ERROR] Detector did not return any Results.'',
         ResetValues, Print ''[INFO] Reloading Captcha and Retrying'',
         Click ''#recaptcha-reload-button'', HandleRecaptcha, TextContent,
         Evaluate ''grecaptcha.getResponse()'']\<rparr>"


definition restarted_after_wait :: challenger where
  "restarted_after_wait =
     \<lparr>click_timeout = None, retry_times = 15, retried = 1, dynamic = False,
      captcha_token = [], clock = 20,
      trace =
        [ResetValues, Click ''.recaptcha-checkbox-border'', WaitForLabel,
         WaitForTimeout 2000, HandleRecaptcha, TextContent, QueryTiles,
         DetectTiles ''cars'' False False, Screenshot, MouseClick 120 250,
         Click ''#recaptcha-verify-button'',
         Evaluate ''grecaptcha.getResponse()'', WaitForTimeout 1000,
         Evaluate ''grecaptcha.getResponse()'', WaitForTimeout 1000,
         Evaluate ''grecaptcha.getResponse()'', WaitForTimeout 1000,
         Evaluate ''grecaptcha.getResponse()'', WaitForTimeout 1000,
         Evaluate ''grecaptcha.getResponse()'', WaitForTimeout 1000,
         HandleRecaptcha, TextContent,
         Evaluate ''grecaptcha.getResponse()'',
         Print ''[ERROR] reCaptcha Frame did not load.'']\<rparr>"

definition handled_after_wait :: challenger where
  "handled_after_wait =
     \<lparr>click_timeout = None, retry_times = 15, retried = 1, dynamic = False,
      captcha_token = [], clock = 17,
      trace =
        [HandleRecaptcha, TextContent, QueryTiles,
         DetectTiles ''cars'' False False, Screenshot, MouseClick 120 250,
         Click ''#recaptcha-verify-button'',
         Evaluate ''grecaptcha.getResponse()'', WaitForTimeout 1000,
         Evaluate ''grecaptcha.getResponse()'', WaitForTimeout 1000,
         Evaluate ''grecaptcha.getResponse()'', WaitForTimeout 1000,
         Evaluate ''grecaptcha.getResponse()'', WaitForTimeout 1000,
         Evaluate ''grecaptcha.getResponse()'', WaitForTimeout 1000,
         HandleRecaptcha, TextContent,
         Evaluate ''grecaptcha.getResponse()'',
         Print ''[ERROR] reCaptcha Frame did not load.'']\<rparr>"

definition limit_on_wait :: challenger where
  "limit_on_wait =
     \<lparr>click_timeout = None, retry_times = 1, retried = 1, dynamic = False,
      captcha_token = [], clock = 18,
      trace =
        [ResetValues, Click ''.recaptcha-checkbox-border'', WaitForLabel,
         WaitForTimeout 2000, HandleRecaptcha, TextContent, QueryTiles,
         DetectTiles ''cars'' False False, Screenshot, MouseClick 120 250,
         Click ''#recaptcha-verify-button'',
         Evaluate ''grecaptcha.getResponse()'', WaitForTimeout 1000,
         Evaluate ''grecaptcha.getResponse()'', WaitForTimeout 1000,
         Evaluate ''grecaptcha.getResponse()'', WaitForTimeout 1000,
         Evaluate ''grecaptcha.getResponse()'', WaitForTimeout 1000,
         Evaluate ''grecaptcha.getResponse()'', WaitForTimeout 1000]\<rparr>"

definition prompt_missing :: challenger where
  "prompt_missing =
     \<lparr>click_timeout = None, retry_times = 15, retried = 0, dynamic = False,
      captcha_token = [], clock = 4,
      trace =
        [ResetValues, Click ''.recaptcha-checkbox-border'', WaitForLabel,
         WaitForTimeout 2000, HandleRecaptcha, TextContent]\<rparr>"

definition reload_timed_out :: challenger where
  "reload_timed_out =
     \<lparr>click_timeout = None, retry_times = 15, retried = 1, dynamic = False,
      captcha_token = [], clock = 7,
      trace =
        [ResetValues, Click ''.recaptcha-checkbox-border'', WaitForLabel,
         WaitForTimeout 2000, HandleRecaptcha, TextContent, QueryTiles,
         DetectTiles ''cars'' False False, Screenshot,
         Print ''[ERROR] Detector did not return any Results.'', ResetValues,
         Print ''[INFO] Reloading Captcha and Retrying'',
         Click ''#recaptcha-reload-button'']\<rparr>"

definition dynamic_solved :: challenger where
  "dynamic_solved =
     \<lparr>click_timeout = None, retry_times = 15, retried = 0, dynamic = True,
      captcha_token = [], clock = 11,
      trace =
        [ResetValues, Click ''.recaptcha-checkbox-border'', WaitForLabel,
         WaitForTimeout 2000, HandleRecaptcha, TextContent, QueryTiles,
         DetectTiles ''cars'' False False, Screenshot, MouseClick 120 250,
         WaitForTimeout 5000, DetectTiles ''cars'' False True, Screenshot,
         Click ''#recaptcha-verify-button'',
         Evaluate ''grecaptcha.getResponse()'']\<rparr>"

definition token_ignored :: challenger where
  "token_ignored =
     \<lparr>click_timeout = None, retry_times = 15, retried = 1, dynamic = False,
      captcha_token = ''03AGdBq2'', clock = 26,
      trace =
        [ResetValues, Click ''.recaptcha-checkbox-border'', WaitForLabel,
         WaitForTimeout 2000, HandleRecaptcha, TextContent, QueryTiles,
         DetectTiles ''cars'' False False, Screenshot, MouseClick 120 250,
         Click ''#recaptcha-verify-button'',
         Evaluate ''grecaptcha.getResponse()'',
         Evaluate ''grecaptcha.enterprise.getResponse()'',
         WaitForTimeout 1000, Evaluate ''grecaptcha.getResponse()'',
         Evaluate ''grecaptcha.enterprise.getResponse()'',
         WaitForTimeout 1000, Evaluate ''grecaptcha.getResponse()'',
         Evaluate ''grecaptcha.enterprise.getResponse()'',
         WaitForTimeout 1000, Evaluate ''grecaptcha.getResponse()'',
         Evaluate ''grecaptcha.enterprise.getResponse()'',
         WaitForTimeout 1000, Evaluate ''grecaptcha.getResponse()'',
         Evaluate ''grecaptcha.enterprise.getResponse()'',
         WaitForTimeout 1000, HandleRecaptcha, TextContent,
         Evaluate ''grecaptcha.getResponse()'',
         Evaluate ''grecaptcha.enterprise.getResponse()'',
         Print ''[ERROR] reCaptcha Frame did not load.'']\<rparr>"

definition area_solved :: challenger where
  "area_solved =
     \<lparr>click_timeout = None, retry_times = 15, retried = 0, dynamic = False,
      captcha_token = [], clock = 12,
      trace =
        [HandleRecaptcha, TextContent, QueryTiles, WaitForTimeout 1000,
         QueryTiles, WaitForTimeout 1000, QueryTiles, WaitForTimeout 1000,
         QueryTiles, DetectTiles ''cars'' True True, Screenshot,
         MouseClick 120 250, Click ''#recaptcha-verify-button'',
         Evaluate ''grecaptcha.getResponse()'']\<rparr>"

section \<open>Basic facts\<close>

lemma request_handler_keeps [simp]:
  "clock (request_handler r s) = clock s"
  "trace (request_handler r s) = trace s"
  "retried (request_handler r s) = retried s"
  "retry_times (request_handler r s) = retry_times s"
  "click_timeout (request_handler r s) = click_timeout s"
  by (simp_all add: request_handler_def Let_def split: response_result.splits option.splits)

lemma fold_request_handler_keeps [simp]:
  "clock (fold request_handler rs s) = clock s"
  "trace (fold request_handler rs s) = trace s"
  "retried (fold request_handler rs s) = retried s"
  "retry_times (fold request_handler rs s) = retry_times s"
  "click_timeout (fold request_handler rs s) = click_timeout s"
  by (induction rs arbitrary: s; simp)+

lemma await_keeps [simp]:
  "clock (await w e s) = Suc (clock s)"
  "trace (await w e s) = trace s @ [e]"
  "retried (await w e s) = retried s"
  "retry_times (await w e s) = retry_times s"
  "click_timeout (await w e s) = click_timeout s"
  by (simp_all add: await_def deliver_def log_def)

lemma log_keeps [simp]:
  "clock (log e s) = clock s"
  "trace (log e s) = trace s @ [e]"
  "retried (log e s) = retried s"
  "retry_times (log e s) = retry_times s"
  "click_timeout (log e s) = click_timeout s"
  "dynamic (log e s) = dynamic s"
  "captcha_token (log e s) = captcha_token s"
  by (simp_all add: log_def)

lemma reset_values_keeps [simp]:
  "clock (reset_values s) = clock s"
  "trace (reset_values s) = trace s @ [ResetValues]"
  "retried (reset_values s) = retried s"
  "retry_times (reset_values s) = retry_times s"
  "click_timeout (reset_values s) = click_timeout s"
  "dynamic (reset_values s) = False"
  "captcha_token (reset_values s) = []"
  by (simp_all add: reset_values_def)

lemma click_keeps [simp]:
  "clock (snd (click w sel s)) = Suc (clock s)"
  "trace (snd (click w sel s)) = trace s @ [Click sel]"
  "retried (snd (click w sel s)) = retried s"
  "retry_times (snd (click w sel s)) = retry_times s"
  "click_timeout (snd (click w sel s)) = click_timeout s"
  by (simp_all add: click_def)

lemma new_events_append: "trace s' = trace s @ evs \<Longrightarrow> new_events s s' = evs"
  by (simp add: new_events_def)

section \<open>The substring test and the search of the token pattern\<close>

lemma starts_with_iff: "starts_with sub s \<longleftrightarrow> (\<exists>post. s = sub @ post)"
  by (induction sub s rule: starts_with.induct) auto

lemma str_in_iff: "str_in sub s \<longleftrightarrow> (\<exists>pre post. s = pre @ sub @ post)"
proof (induction s)
  case Nil
  then show ?case by auto
next
  case (Cons x s)
  show ?case
  proof
    assume "str_in sub (x # s)"
    then consider "starts_with sub (x # s)" | "str_in sub s" by auto
    then show "\<exists>pre post. x # s = pre @ sub @ post"
    proof cases
      case 1
      then obtain post where "x # s = [] @ sub @ post" by (auto simp: starts_with_iff)
      then show ?thesis by blast
    next
      case 2
      then obtain pre post where "s = pre @ sub @ post" using Cons.IH by blast
      then have "x # s = (x # pre) @ sub @ post" by simp
      then show ?thesis by blast
    qed
  next
    assume "\<exists>pre post. x # s = pre @ sub @ post"
    then obtain pre post where e: "x # s = pre @ sub @ post" by blast
    show "str_in sub (x # s)"
    proof (cases pre)
      case Nil
      with e have "starts_with sub (x # s)" by (auto simp: starts_with_iff)
      then show ?thesis by simp
    next
      case (Cons y pre')
      with e have "s = pre' @ sub @ post" by simp
      then have "str_in sub s" using Cons.IH by blast
      then show ?thesis by simp
    qed
  qed
qed

lemma match_here_lits:
  "match_here (map Chr l @ ps) (l @ cs) g = match_here ps cs g"
  by (induction l) simp_all

lemma match_here_star_run:
  "list_all P ws \<Longrightarrow> \<not> P x \<Longrightarrow> match_here ps (x # cs) g = Some r
     \<Longrightarrow> match_here (StarSet P # ps) (ws @ x # cs) g = Some r"
  by (induction ws) simp_all

lemma match_here_group_run:
  "list_all P t \<Longrightarrow> \<not> P x \<Longrightarrow> match_here ps (x # cs) (g @ t) = Some r
     \<Longrightarrow> match_here (GroupStar P # ps) (t @ x # cs) g = Some r"
  by (induction t arbitrary: g) simp_all

lemma not_space_comma: "\<not> py_isspace CHR '',''"
  by (simp add: py_isspace_def)

lemma not_space_dquote: "\<not> py_isspace dquote"
  by (simp add: py_isspace_def dquote_def)

lemma match_here_field:
  assumes "list_all py_isspace ws1" "list_all py_isspace ws2" "tok \<noteq> []" "dquote \<notin> set tok"
  shows "match_here uvresp_pattern (uvresp_field ws1 ws2 tok @ post) [] = Some tok"
proof -
  obtain t ts where tok: "tok = t # ts" using assms(3) by (cases tok) auto
  have nq: "list_all (\<lambda>c. c \<noteq> dquote) ts" "t \<noteq> dquote"
    using assms(4) tok by (auto simp: list_all_iff)
  have last: "match_here [Chr dquote] (dquote # post) ([t] @ ts) = Some tok"
    by (simp add: tok)
  have grp: "match_here [GroupPlus (\<lambda>c. c \<noteq> dquote), Chr dquote] (tok @ dquote # post) []
              = Some tok"
    using match_here_group_run[OF nq(1) _ last] nq(2) by (simp add: tok)
  have q: "match_here [Chr dquote, GroupPlus (\<lambda>c. c \<noteq> dquote), Chr dquote]
             (dquote # tok @ dquote # post) [] = Some tok"
    using grp by simp
  have s2: "match_here [StarSet py_isspace, Chr dquote, GroupPlus (\<lambda>c. c \<noteq> dquote), Chr dquote]
             (ws2 @ dquote # tok @ dquote # post) [] = Some tok"
    by (rule match_here_star_run[OF assms(2) not_space_dquote q])
  have c: "match_here [Chr CHR '','', StarSet py_isspace, Chr dquote,
                       GroupPlus (\<lambda>c. c \<noteq> dquote), Chr dquote]
             (CHR '','' # ws2 @ dquote # tok @ dquote # post) [] = Some tok"
    using s2 by simp
  have s1: "match_here [StarSet py_isspace, Chr CHR '','', StarSet py_isspace, Chr dquote,
                       GroupPlus (\<lambda>c. c \<noteq> dquote), Chr dquote]
             (ws1 @ CHR '','' # ws2 @ dquote # tok @ dquote # post) [] = Some tok"
    by (rule match_here_star_run[OF assms(1) not_space_comma c])
  show ?thesis
    unfolding uvresp_pattern_def uvresp_field_def
    using s1 match_here_lits[of uvresp_label _ "ws1 @ CHR '','' # ws2 @ dquote # tok @ dquote # post" "[]"]
    by simp
qed

lemma match_here_lits_inv:
  "match_here (map Chr l @ ps) cs g = Some r
     \<Longrightarrow> \<exists>cs'. cs = l @ cs' \<and> match_here ps cs' g = Some r"
proof (induction l arbitrary: cs)
  case Nil then show ?case by simp
next
  case (Cons c l)
  then show ?case by (cases cs) (auto split: if_splits)
qed

lemma match_here_star_inv:
  "match_here (StarSet P # ps) cs g = Some r
     \<Longrightarrow> \<exists>ws cs'. cs = ws @ cs' \<and> list_all P ws \<and> match_here ps cs' g = Some r"
proof (induction cs)
  case Nil
  then show ?case by simp
next
  case (Cons x cs)
  show ?case
  proof (cases "P x \<and> match_here (StarSet P # ps) cs g \<noteq> None")
    case True
    with Cons.prems have "match_here (StarSet P # ps) cs g = Some r" by auto
    from Cons.IH[OF this] obtain ws cs' where
      "cs = ws @ cs'" "list_all P ws" "match_here ps cs' g = Some r" by blast
    with True have "x # cs = (x # ws) @ cs' \<and> list_all P (x # ws) \<and> match_here ps cs' g = Some r"
      by simp
    then show ?thesis by blast
  next
    case False
    with Cons.prems have "match_here ps (x # cs) g = Some r"
      by (auto split: if_splits option.splits)
    then have "x # cs = [] @ (x # cs) \<and> list_all P [] \<and> match_here ps (x # cs) g = Some r"
      by simp
    then show ?thesis by blast
  qed
qed

lemma match_here_group_star_inv:
  "match_here (GroupStar P # ps) cs g = Some r
     \<Longrightarrow> \<exists>t cs'. cs = t @ cs' \<and> list_all P t \<and> match_here ps cs' (g @ t) = Some r"
proof (induction cs arbitrary: g)
  case Nil
  then show ?case by simp
next
  case (Cons x cs)
  show ?case
  proof (cases "P x \<and> match_here (GroupStar P # ps) cs (g @ [x]) \<noteq> None")
    case True
    with Cons.prems have "match_here (GroupStar P # ps) cs (g @ [x]) = Some r" by auto
    from Cons.IH[OF this] obtain t cs' where
      "cs = t @ cs'" "list_all P t" "match_here ps cs' ((g @ [x]) @ t) = Some r" by blast
    with True have "x # cs = (x # t) @ cs' \<and> list_all P (x # t)
        \<and> match_here ps cs' (g @ (x # t)) = Some r"
      by simp
    then show ?thesis by blast
  next
    case False
    with Cons.prems have "match_here ps (x # cs) g = Some r"
      by (auto split: if_splits option.splits)
    then have "x # cs = [] @ (x # cs) \<and> list_all P [] \<and> match_here ps (x # cs) (g @ []) = Some r"
      by simp
    then show ?thesis by blast
  qed
qed

lemma match_here_group_plus_inv:
  assumes "match_here (GroupPlus P # ps) cs g = Some r"
  shows "\<exists>t cs'. cs = t @ cs' \<and> t \<noteq> [] \<and> list_all P t \<and> match_here ps cs' t = Some r"
proof (cases cs)
  case Nil
  with assms show ?thesis by simp
next
  case (Cons x xs)
  with assms have px: "P x" and m: "match_here (GroupStar P # ps) xs [x] = Some r"
    by (auto split: if_splits)
  from match_here_group_star_inv[OF m] obtain t cs' where
    "xs = t @ cs'" "list_all P t" "match_here ps cs' ([x] @ t) = Some r" by blast
  with px Cons have "cs = (x # t) @ cs' \<and> x # t \<noteq> [] \<and> list_all P (x # t)
      \<and> match_here ps cs' (x # t) = Some r"
    by simp
  then show ?thesis by blast
qed

lemma match_here_chr_inv:
  "match_here (Chr c # ps) cs g = Some r \<Longrightarrow> \<exists>cs'. cs = c # cs' \<and> match_here ps cs' g = Some r"
  by (cases cs) (auto split: if_splits)

lemma match_here_pattern_inv:
  assumes "match_here uvresp_pattern cs [] = Some r"
  shows "field_at [] cs"
proof -
  from assms obtain c1 where c1: "cs = uvresp_label @ c1"
    and m1: "match_here [StarSet py_isspace, Chr CHR '','', StarSet py_isspace, Chr dquote,
                 GroupPlus (\<lambda>c. c \<noteq> dquote), Chr dquote] c1 [] = Some r"
    unfolding uvresp_pattern_def using match_here_lits_inv by blast
  from match_here_star_inv[OF m1] obtain ws1 c2 where c2: "c1 = ws1 @ c2" "list_all py_isspace ws1"
    and m2: "match_here [Chr CHR '','', StarSet py_isspace, Chr dquote,
                 GroupPlus (\<lambda>c. c \<noteq> dquote), Chr dquote] c2 [] = Some r" by blast
  from match_here_chr_inv[OF m2] obtain c3 where c3: "c2 = CHR '','' # c3"
    and m3: "match_here [StarSet py_isspace, Chr dquote,
                 GroupPlus (\<lambda>c. c \<noteq> dquote), Chr dquote] c3 [] = Some r" by blast
  from match_here_star_inv[OF m3] obtain ws2 c4 where c4: "c3 = ws2 @ c4" "list_all py_isspace ws2"
    and m4: "match_here [Chr dquote, GroupPlus (\<lambda>c. c \<noteq> dquote), Chr dquote] c4 [] = Some r"
    by blast
  from match_here_chr_inv[OF m4] obtain c5 where c5: "c4 = dquote # c5"
    and m5: "match_here [GroupPlus (\<lambda>c. c \<noteq> dquote), Chr dquote] c5 [] = Some r" by blast
  from match_here_group_plus_inv[OF m5] obtain tok c6 where c6: "c5 = tok @ c6" "tok \<noteq> []"
      "list_all (\<lambda>c. c \<noteq> dquote) tok"
    and m6: "match_here [Chr dquote] c6 tok = Some r" by blast
  from match_here_chr_inv[OF m6] obtain post where c7: "c6 = dquote # post" by blast
  have "cs = [] @ uvresp_field ws1 ws2 tok @ post"
    by (simp add: c1 c2 c3 c4 c5 c6 c7 uvresp_field_def)
  moreover have "dquote \<notin> set tok" using c6(3) by (auto simp: list_all_iff)
  ultimately show ?thesis unfolding field_at_def using c2(2) c4(2) c6(2) by blast
qed

lemma re_search_skip:
  "\<forall>pre'. length pre' < length pre \<longrightarrow> \<not> field_at pre' (pre @ rest)
     \<Longrightarrow> re_search uvresp_pattern (pre @ rest) = re_search uvresp_pattern rest"
proof (induction pre)
  case Nil
  then show ?case by simp
next
  case (Cons p pre)
  have "\<not> field_at [] ((p # pre) @ rest)" using Cons.prems by auto
  then have none: "match_here uvresp_pattern (p # pre @ rest) [] = None"
    using match_here_pattern_inv by (cases "match_here uvresp_pattern (p # pre @ rest) []") auto
  have "\<forall>pre'. length pre' < length pre \<longrightarrow> \<not> field_at pre' (pre @ rest)"
  proof (intro allI impI notI)
    fix pre' assume l: "length pre' < length pre" and f: "field_at pre' (pre @ rest)"
    from f have "field_at (p # pre') ((p # pre) @ rest)"
      unfolding field_at_def by auto
    with Cons.prems l show False by auto
  qed
  from Cons.IH[OF this] none show ?case by simp
qed

lemma re_search_first_field:
  assumes "body = pre @ uvresp_field ws1 ws2 tok @ post"
    and "list_all py_isspace ws1" "list_all py_isspace ws2" "tok \<noteq> []" "dquote \<notin> set tok"
    and "\<forall>pre'. length pre' < length pre \<longrightarrow> \<not> field_at pre' body"
  shows "re_search uvresp_pattern body = Some tok"
proof -
  have "re_search uvresp_pattern body = re_search uvresp_pattern (uvresp_field ws1 ws2 tok @ post)"
    unfolding assms(1) using re_search_skip assms(1,6) by blast
  moreover have "uvresp_field ws1 ws2 tok @ post \<noteq> []" by (simp add: uvresp_field_def uvresp_label_def)
  ultimately show ?thesis
    using match_here_field[OF assms(2-5), of post]
    by (cases "uvresp_field ws1 ws2 tok @ post") simp_all
qed

lemma no_field_before_bracket:
  "\<not> field_at [] (CHR ''['' # rest)"
  by (simp add: field_at_def uvresp_field_def uvresp_label_def dquote_def)

lemma userverify_body_search:
  "re_search uvresp_pattern (''['' @ uvresp_field [] '' '' ''03AGdBq2'' @ '',1,120]'')
     = Some ''03AGdBq2''"
proof (rule re_search_first_field[of _ "''[''" "[]" "'' ''" _ "'',1,120]''"])
  show "\<forall>pre'. length pre' < length ''['' \<longrightarrow>
          \<not> field_at pre' (''['' @ uvresp_field [] '' '' ''03AGdBq2'' @ '',1,120]'')"
    using no_field_before_bracket by simp
qed (simp_all add: py_isspace_def dquote_def)

lemma reload_request_handled:
  "request_handler reload_request s = s\<lparr>dynamic := True\<rparr>"
  by (simp add: request_handler_def reload_request_def)

lemma userverify_request_handled:
  "request_handler userverify_request s
     = s\<lparr>dynamic := False, captcha_token := ''03AGdBq2''\<rparr>"
proof -
  let ?body = "''['' @ uvresp_field [] '' '' ''03AGdBq2'' @ '',1,120]''"
  have m: "\<not> str_in ''rresp'' ?body" "\<not> str_in ''bgdata'' ?body" "\<not> str_in ''dynamic'' ?body"
    by (simp_all add: uvresp_field_def uvresp_label_def dquote_def)
  have u: "str_in ''google.com'' (url userverify_request)"
    "str_in ''userverify'' (url userverify_request)"
    "response userverify_request = Body ?body"
    by (simp_all add: userverify_request_def)
  show ?thesis
    unfolding request_handler_def
    by (simp only: u m userverify_body_search Let_def response_result.case option.case
        if_True if_False simp_thms)
qed

section \<open>Quiet steps\<close>

lemma quiet_simps [simp]:
  "quiet []"
  "quiet (e # q) = (e \<noteq> HandleRecaptcha \<and> e \<noteq> ResetValues
                    \<and> e \<noteq> Click ''#recaptcha-reload-button'' \<and> quiet q)"
  "quiet (q @ q') = (quiet q \<and> quiet q')"
  by (auto simp: quiet_def)

lemma quiet_step_refl [simp]: "quiet_step s s"
  by (simp add: quiet_step_def)

lemma quiet_step_trans: "quiet_step s s1 \<Longrightarrow> quiet_step s1 s2 \<Longrightarrow> quiet_step s s2"
  unfolding quiet_step_def by (metis append.assoc quiet_simps(3))

lemma quiet_step_await:
  "e \<noteq> HandleRecaptcha \<Longrightarrow> e \<noteq> ResetValues \<Longrightarrow> e \<noteq> Click ''#recaptcha-reload-button''
     \<Longrightarrow> quiet_step s (await w e s)"
  by (simp add: quiet_step_def)

lemma quiet_step_log:
  "e \<noteq> HandleRecaptcha \<Longrightarrow> e \<noteq> ResetValues \<Longrightarrow> e \<noteq> Click ''#recaptcha-reload-button''
     \<Longrightarrow> quiet_step s (log e s)"
  by (simp add: quiet_step_def)

lemma quiet_step_check_result: "quiet_step s (snd (check_result w s))"
  by (auto simp: check_result_def evaluate_def Let_def split: eval_result.splits
      intro!: quiet_step_await quiet_step_trans[OF quiet_step_await quiet_step_await])

lemma quiet_step_wait: "quiet_step s (wait_for_timeout w ms s)"
  by (simp add: wait_for_timeout_def quiet_step_await)

lemma quiet_step_query_tiles: "quiet_step s (snd (query_tiles w s))"
  by (simp add: query_tiles_def quiet_step_await)

lemma quiet_step_poll_loop: "quiet_step s (snd (poll_loop w k tiles s))"
proof (induction k arbitrary: tiles s)
  case 0
  then show ?case by simp
next
  case (Suc k)
  show ?case
  proof (cases "tiles = 9 \<or> tiles = 16")
    case True
    then show ?thesis by auto
  next
    case False
    have "quiet_step s (snd (query_tiles w (wait_for_timeout w 1000 s)))"
      using quiet_step_trans[OF quiet_step_wait quiet_step_query_tiles] .
    from quiet_step_trans[OF this Suc.IH] False show ?thesis
      by (simp add: split_beta Let_def)
  qed
qed

lemma quiet_step_poll_tiles: "quiet_step s (snd (poll_tiles w s))"
  using quiet_step_trans[OF quiet_step_query_tiles quiet_step_poll_loop]
  by (simp add: poll_tiles_def split_beta)

lemma quiet_step_click:
  "selector \<noteq> ''#recaptcha-reload-button'' \<Longrightarrow> quiet_step s (snd (click w selector s))"
  by (simp add: click_def quiet_step_await)

lemma quiet_step_visible: "quiet_step s (snd (check_captcha_visible w s))"
  by (simp add: check_captcha_visible_def quiet_step_await)

lemma quiet_step_submit: "quiet_step s (submit w s)"
proof -
  let ?s1 = "snd (click w ''#recaptcha-verify-button'' s)"
  let ?s2 = "snd (check_captcha_visible w ?s1)"
  have a: "quiet_step s ?s1" by (rule quiet_step_click) simp
  have b: "quiet_step s ?s2" using quiet_step_trans[OF a quiet_step_visible] .
  have c: "quiet_step s (log (Print ''[WARNING] Could not submit challenge. Verify Button did not load.'') ?s2)"
    by (rule quiet_step_trans[OF b]) (simp add: quiet_step_log)
  show ?thesis using a b c by (simp add: submit_def split_beta)
qed

lemma quiet_step_click_coordinates: "quiet_step s (click_coordinates w cs s)"
proof (induction cs arbitrary: s)
  case Nil
  then show ?case by simp
next
  case (Cons c cs)
  obtain x y where c: "c = (x, y)" by (cases c)
  let ?s1 = "await w (MouseClick x y) s"
  let ?s2 = "case click_timeout ?s1 of None \<Rightarrow> ?s1
             | Some t \<Rightarrow> if t \<noteq> 0 then wait_for_timeout w t ?s1 else ?s1"
  have a: "quiet_step s ?s1" by (simp add: quiet_step_await)
  have "quiet_step ?s1 ?s2" by (auto split: option.splits simp: quiet_step_wait)
  from quiet_step_trans[OF quiet_step_trans[OF a this] Cons.IH] show ?case
    by (simp add: c Let_def)
qed

lemma token_wait_quiet: "quiet_step s (snd (token_wait w k s))"
proof (induction k arbitrary: s)
  case 0
  then show ?case by simp
next
  case (Suc k)
  let ?s1 = "snd (check_result w s)"
  have "quiet_step s (wait_for_timeout w 1000 ?s1)"
    using quiet_step_trans[OF quiet_step_check_result quiet_step_wait] .
  from quiet_step_trans[OF this Suc.IH] quiet_step_check_result[of s w] show ?case
    by (auto simp: split_beta Let_def split: option.splits)
qed

lemma token_wait_exhausted:
  "token_wait w (Suc k) s = (None, s') \<Longrightarrow>
     \<exists>q. trace s' = trace s @ q @ [WaitForTimeout 1000] \<and> quiet q"
proof (induction k arbitrary: s)
  case 0
  let ?s1 = "snd (check_result w s)"
  from 0 have s': "s' = wait_for_timeout w 1000 ?s1"
    by (auto simp: split_beta Let_def split: option.splits if_splits)
  from quiet_step_check_result[of s w] obtain q where "trace ?s1 = trace s @ q" "quiet q"
    by (auto simp: quiet_step_def)
  then show ?case by (simp add: s' wait_for_timeout_def)
next
  case (Suc k)
  let ?s1 = "wait_for_timeout w 1000 (snd (check_result w s))"
  from Suc.prems have "token_wait w (Suc k) ?s1 = (None, s')"
    by (auto simp: split_beta Let_def split: option.splits if_splits)
  from Suc.IH[OF this] obtain q where q: "trace s' = trace ?s1 @ q @ [WaitForTimeout 1000]" "quiet q"
    by blast
  have "quiet_step s ?s1" using quiet_step_trans[OF quiet_step_check_result quiet_step_wait] .
  then obtain q0 where "trace ?s1 = trace s @ q0" "quiet q0" by (auto simp: quiet_step_def)
  with q have "trace s' = trace s @ (q0 @ q) @ [WaitForTimeout 1000] \<and> quiet (q0 @ q)" by simp
  then show ?case by blast
qed

lemma token_wait_token: "token_wait w k s = (Some t, s') \<Longrightarrow> t \<noteq> []"
  by (induction k arbitrary: s) (auto simp: split_beta Let_def split: option.splits if_splits)

lemma detect_tiles_verify:
  "\<exists>b s'. detect_tiles w H p a True s = Some (Inr (Flag b), s') \<and> quiet_step s s'"
proof -
  let ?s0 = "log (DetectTiles p a True) s"
  let ?s1 = "await w Screenshot ?s0"
  have a: "quiet_step s ?s1"
    by (rule quiet_step_trans[of _ ?s0]) (simp_all add: quiet_step_log quiet_step_await)
  have b: "quiet_step s (click_coordinates w cs ?s1)" for cs
    using quiet_step_trans[OF a quiet_step_click_coordinates] .
  show ?thesis using a b
    by (auto simp: detect_tiles_def Let_def split_beta)
qed

lemma dynamic_loop_result:
  "dynamic_loop w n H p a v s = Some (r, s') \<Longrightarrow>
     (r = Inr v \<and> s' = s \<and> \<not> truthy v) \<or> (r = Inr (Flag False) \<and> quiet_step s s')"
proof (induction n arbitrary: v s)
  case 0
  then show ?case by (auto split: if_splits)
next
  case (Suc n)
  show ?case
  proof (cases "truthy v")
    case False
    with Suc.prems show ?thesis by auto
  next
    case True
    let ?s1 = "wait_for_timeout w 5000 s"
    obtain b s2 where d: "detect_tiles w H p a True ?s1 = Some (Inr (Flag b), s2)"
      and q: "quiet_step ?s1 s2" using detect_tiles_verify by blast
    have q2: "quiet_step s s2" using quiet_step_trans[OF quiet_step_wait q] .
    from Suc.prems True d have "dynamic_loop w n H p a (Flag b) s2 = Some (r, s')" by simp
    from Suc.IH[OF this] show ?thesis
    proof
      assume "r = Inr (Flag b) \<and> s' = s2 \<and> \<not> truthy (Flag b)"
      with q2 show ?thesis by auto
    next
      assume "r = Inr (Flag False) \<and> quiet_step s2 s'"
      with q2 show ?thesis using quiet_step_trans by blast
    qed
  qed
qed

lemma extends_refl [simp]: "extends s s"
  by (simp add: extends_def)

lemma extends_trans: "extends s s1 \<Longrightarrow> extends s1 s2 \<Longrightarrow> extends s s2"
  by (auto simp: extends_def)

lemma quiet_step_extends: "quiet_step s s' \<Longrightarrow> extends s s'"
  by (auto simp: quiet_step_def extends_def)

section \<open>Every call has the shape\<close>

lemma sound_callD: "sound_call w H \<Longrightarrow> H s = Some (r, s') \<Longrightarrow> cyc_run w s r s'"
  by (simp add: sound_call_def)

lemma retry_sound:
  assumes IH: "sound_call w H"
    and run: "retry w H False s = Some (r, s')"
  shows "(r = Inl RecursionError \<and> retry_times s \<le> retried s + 1 \<and> trace s' = trace s
            \<and> retried s' = retried s + 1 \<and> retry_times s' = retry_times s)
       \<or> (r = Inl PlaywrightTimeoutError \<and> retried s + 1 < retry_times s
            \<and> click_times_out_at w (clock s) ''#recaptcha-reload-button''
            \<and> trace s' = trace s @ tl reload_block
            \<and> retried s' = retried s + 1 \<and> retry_times s' = retry_times s)
       \<or> (retried s + 1 < retry_times s \<and> retry_times s' = retry_times s
            \<and> (\<exists>e2. trace s' = trace s @ tl reload_block @ e2
                  \<and> cyc w (retry_times s) (retried s + 1) e2 r (retried s')))"
proof (cases "retry_times s \<le> retried s + 1")
  case True
  with run show ?thesis by (auto simp: retry_def Let_def)
next
  case False
  let ?s0 = "log (Print ''[INFO] Reloading Captcha and Retrying'')
               (reset_values (s\<lparr>retried := retried s + 1\<rparr>))"
  let ?sR = "snd (click w ''#recaptcha-reload-button'' ?s0)"
  have tR: "trace ?sR = trace s @ tl reload_block" "retried ?sR = retried s + 1"
    "retry_times ?sR = retry_times s"
    by (simp_all add: reload_block_def)
  show ?thesis
  proof (cases "click_times_out_at w (clock s) ''#recaptcha-reload-button''")
    case True
    with run False have "r = Inl PlaywrightTimeoutError" "s' = ?sR"
      by (simp_all add: retry_def Let_def split_beta click_def)
    with True False tR show ?thesis by simp
  next
    case no_timeout: False
    with run False have "H ?sR = Some (r, s')"
      by (simp add: retry_def Let_def split_beta click_def)
    from sound_callD[OF IH this] obtain e2 where
      "trace s' = trace ?sR @ e2" "cyc w (retry_times ?sR) (retried ?sR) e2 r (retried s')"
      "retry_times s' = retry_times ?sR"
      by (auto simp: cyc_run_def)
    with tR have "trace s' = trace s @ tl reload_block @ e2
        \<and> cyc w (retry_times s) (retried s + 1) e2 r (retried s')
        \<and> retry_times s' = retry_times s"
      by simp
    with False show ?thesis by auto
  qed
qed

lemma detect_tiles_sound:
  assumes "detect_tiles w H p a v s = Some (r, s')"
  shows "(\<exists>b. r = Inr (Flag b) \<and> quiet_step s s')
       \<or> (\<exists>s1. quiet_step s s1
             \<and> retry w H False
                   (log (Print ''[ERROR] Detector did not return any Results.'') s1)
                 = Some (r, s'))"
proof -
  let ?s0 = "log (DetectTiles p a v) s"
  let ?s1 = "await w Screenshot ?s0"
  have q1: "quiet_step s ?s1"
    by (rule quiet_step_trans[of _ ?s0]) (simp_all add: quiet_step_log quiet_step_await)
  have qc: "quiet_step s (click_coordinates w cs ?s1)" for cs
    using quiet_step_trans[OF q1 quiet_step_click_coordinates] .
  from assms q1 qc show ?thesis
    by (auto simp: detect_tiles_def Let_def split_beta split: if_splits)
qed

lemma after_detection_sound:
  assumes IH: "sound_call w H"
    and fr: "front_run w s v s3"
    and run: "after_detection w H n p a v s3 = Some (r, s')"
  shows "cyc_run w s r s'"
proof -
  from fr obtain f where f: "trace s3 = trace s @ f"
      "front w (retry_times s) (retried s) f v (retried s3)" "retry_times s3 = retry_times s"
    by (auto simp: front_run_def)
  let ?loop = "if dynamic s3 \<and> \<not> a then dynamic_loop w n H p a v s3 else Some (Inr v, s3)"
  from run obtain rl s4 where l: "?loop = Some (rl, s4)"
    by (cases ?loop) (auto simp: after_detection_def submit_and_wait_def)
  then have lr: "(rl = Inr v \<and> s4 = s3) \<or> (rl = Inr (Flag False) \<and> quiet_step s3 s4)"
    using dynamic_loop_result[of w n H p a v s3 rl s4] by (auto split: if_splits)
  then obtain nyp where nyp: "rl = Inr nyp" by auto
  show ?thesis
  proof (cases nyp)
    case (Str t)
    with lr nyp have "v = Str t" "s4 = s3" by auto
    moreover from run l nyp Str have "r = Inr (Str t)" "s' = s4"
      by (auto simp: after_detection_def submit_and_wait_def)
    ultimately show ?thesis using f cyc_front.inner_token[of w "retry_times s" "retried s" f t "retried s3"]
      by (auto simp: cyc_run_def)
  next
    case (Flag x)
    from lr have q34: "quiet_step s3 s4" by auto
    let ?s5 = "submit w s4"
    obtain tk s6 where tw: "token_wait w 5 ?s5 = (tk, s6)" by (cases "token_wait w 5 ?s5")
    have q56: "quiet_step ?s5 s6" using token_wait_quiet[of ?s5 w 5] tw by simp
    have q35: "quiet_step s3 ?s5" using quiet_step_trans[OF q34 quiet_step_submit] .
    have q36: "quiet_step s3 s6" using quiet_step_trans[OF q35 q56] .
    show ?thesis
    proof (cases tk)
      case (Some t)
      with run l nyp Flag tw have rs: "r = Inr (Str t)" "s' = s6"
        by (auto simp: after_detection_def submit_and_wait_def)
      from tw Some have "t \<noteq> []" using token_wait_token by blast
      moreover from q36 obtain q where "trace s6 = trace s3 @ q" "quiet q"
        "retried s6 = retried s3" "retry_times s6 = retry_times s3"
        by (auto simp: quiet_step_def)
      ultimately show ?thesis
        using f rs cyc_front.token_found[of w "retry_times s" "retried s" f v "retried s3" q t]
        by (auto simp: cyc_run_def)
    next
      case None
      from tw None have "token_wait w (Suc 4) ?s5 = (None, s6)" by (simp add: eval_nat_numeral)
      from token_wait_exhausted[OF this] obtain q2 where
        q2: "trace s6 = trace ?s5 @ q2 @ [WaitForTimeout 1000]" "quiet q2" by blast
      from q35 obtain q1 where q1: "trace ?s5 = trace s3 @ q1" "quiet q1" by (auto simp: quiet_step_def)
      from q36 have k: "retried s6 = retried s3" "retry_times s6 = retry_times s3"
        by (auto simp: quiet_step_def)
      have tr: "trace s6 = trace s @ f @ (q1 @ q2) @ [WaitForTimeout 1000]" "quiet (q1 @ q2)"
        using q1 q2 f by simp_all
      let ?s7 = "s6\<lparr>retried := retried s6 + 1\<rparr>"
      show ?thesis
      proof (cases "retry_times s \<le> retried s3 + 1")
        case True
        with run l nyp Flag tw None k f have rs: "r = Inl RecursionError" "s' = ?s7"
          by (auto simp: after_detection_def submit_and_wait_def Let_def)
        show ?thesis
          using cyc_front.wait_limit[OF f(2) tr(2) True] tr(1) rs k f(3)
          by (auto simp: cyc_run_def)
      next
        case False
        with run l nyp Flag tw None k f have "H ?s7 = Some (r, s')"
          by (auto simp: after_detection_def submit_and_wait_def Let_def)
        from sound_callD[OF IH this] obtain e2 where e2: "trace s' = trace ?s7 @ e2"
          "cyc w (retry_times ?s7) (retried ?s7) e2 r (retried s')"
          "retry_times s' = retry_times ?s7"
          by (auto simp: cyc_run_def)
        from False have lt: "retried s3 + 1 < retry_times s" by simp
        from e2(2) k f(3) have c: "cyc w (retry_times s) (retried s3 + 1) e2 r (retried s')"
          by simp
        show ?thesis
          using cyc_front.wait_restart[OF f(2) tr(2) lt c] tr(1) e2(1,3) k f(3)
          by (auto simp: cyc_run_def)
      qed
    qed
  qed
qed

lemma cycle_sound:
  assumes IH: "sound_call w H"
    and run: "cycle w H n s = Some (r, s')"
  shows "cyc_run w s r s'"
proof -
  let ?s0 = "log HandleRecaptcha s"
  let ?s1 = "await w TextContent ?s0"
  let ?label = "text_content_at w (clock s)"
  have t1: "trace ?s1 = trace s @ [HandleRecaptcha, TextContent]"
    and k1: "retried ?s1 = retried s" "retry_times ?s1 = retry_times s"
    by simp_all
  have hd: "trace s2 = trace s @ HandleRecaptcha # TextContent # q \<and> quiet (TextContent # q)
            \<and> retried s2 = retried s \<and> retry_times s2 = retry_times s"
    if "quiet_step ?s1 s2" "trace s2 = trace ?s1 @ q" for s2 q
    using that by (auto simp: quiet_step_def)
  have empty: "cyc_run w s (Inl ValueError) ?s1"
    if "?label = Text None \<or> ?label = Text (Some [])"
    using cyc_front.no_prompt[OF that, of "retry_times s" "retried s"] t1 k1
    by (auto simp: cyc_run_def)
  show ?thesis
  proof (cases ?label)
    case TimeoutError
    let ?s2 = "snd (check_result w ?s1)"
    let ?s3 = "log (Print ''[ERROR] reCaptcha Frame did not load.'') ?s2"
    have q2: "quiet_step ?s1 ?s2" by (rule quiet_step_check_result)
    have q3: "quiet_step ?s1 ?s3" by (rule quiet_step_trans[OF q2]) (simp add: quiet_step_log)
    from run TimeoutError have
      "(\<exists>t. t \<noteq> [] \<and> r = Inr (Str t) \<and> s' = ?s2) \<or> (r = Inr (Flag False) \<and> s' = ?s3)"
      by (auto simp: cycle_def text_content_def Let_def split_beta
          split: option.splits if_splits)
    then obtain v where v: "r = Inr v" "v = Flag False \<or> (\<exists>t. t \<noteq> [] \<and> v = Str t)"
      and q: "quiet_step ?s1 s'"
      using q2 q3 by auto
    from q obtain qq where "trace s' = trace ?s1 @ qq" by (auto simp: quiet_step_def)
    from hd[OF q this] v show ?thesis
      using cyc_front.no_frame[of "TextContent # qq" v w "retry_times s" "retried s"]
      by (auto simp: cyc_run_def)
  next
    case (Text po)
    show ?thesis
    proof (cases "po = None \<or> po = Some []")
      case True
      with run Text have "r = Inl ValueError" "s' = ?s1"
        by (auto simp: cycle_def text_content_def Let_def)
      with empty Text True show ?thesis by auto
    next
      case False
      then obtain p where p: "po = Some p" "p \<noteq> []" by (cases po) auto
      let ?s2 = "snd (poll_tiles w ?s1)"
      let ?a = "fst (poll_tiles w ?s1) = 16"
      have q2: "quiet_step ?s1 ?s2" by (rule quiet_step_poll_tiles)
      from run Text p obtain rd s3 where d: "detect_tiles w H p ?a ?a ?s2 = Some (rd, s3)"
        by (cases "detect_tiles w H p ?a ?a ?s2")
           (auto simp: cycle_def text_content_def Let_def split_beta)
      from detect_tiles_sound[OF d] show ?thesis
      proof (elim disjE exE conjE)
        fix b assume rd: "rd = Inr (Flag b)" and q: "quiet_step ?s2 s3"
        have q13: "quiet_step ?s1 s3" using quiet_step_trans[OF q2 q] .
        then obtain qq where "trace s3 = trace ?s1 @ qq" by (auto simp: quiet_step_def)
        from hd[OF q13 this] have "front_run w s (Flag b) s3"
          using cyc_front.front_plain[of "TextContent # qq" w "retry_times s" "retried s" b]
          by (auto simp: front_run_def)
        moreover from run Text p d rd have "after_detection w H n p ?a (Flag b) s3 = Some (r, s')"
          by (simp add: cycle_def text_content_def Let_def split_beta)
        ultimately show ?thesis using after_detection_sound[OF IH] by blast
      next
        fix sd assume q: "quiet_step ?s2 sd"
          and rt: "retry w H False
                     (log (Print ''[ERROR] Detector did not return any Results.'') sd)
                   = Some (rd, s3)"
        define sx where "sx = log (Print ''[ERROR] Detector did not return any Results.'') sd"
        have q1d: "quiet_step ?s1 sd" using quiet_step_trans[OF q2 q] .
        then obtain qq where "trace sd = trace ?s1 @ qq" by (auto simp: quiet_step_def)
        from hd[OF q1d this] have sd: "trace sd = trace s @ HandleRecaptcha # TextContent # qq"
          "quiet (TextContent # qq)" "retried sd = retried s" "retry_times sd = retry_times s"
          by auto
        let ?q = "TextContent # qq"
        let ?qx = "?q @ [Print ''[ERROR] Detector did not return any Results.'']"
        have xt: "trace sx = trace s @ HandleRecaptcha # ?qx"
          and xq: "quiet ?qx"
          and xk: "retried sx = retried s" "retry_times sx = retry_times s"
          using sd by (simp_all add: sx_def quiet_def)
        have xb: "trace sx @ tl reload_block @ es = trace s @ (HandleRecaptcha # ?q @ reload_block @ es)"
          for es
          using xt by (simp add: reload_block_def)
        from rt have rt: "retry w H False sx = Some (rd, s3)" by (simp add: sx_def)
        from retry_sound[OF IH rt] show ?thesis
        proof (elim disjE exE conjE)
          assume lim: "rd = Inl RecursionError" "retry_times sx \<le> retried sx + 1"
            "trace s3 = trace sx" "retried s3 = retried sx + 1" "retry_times s3 = retry_times sx"
          from run Text p d lim(1) have "r = Inl RecursionError" "s' = s3"
            by (auto simp: cycle_def text_content_def Let_def split_beta)
          then show ?thesis
            using cyc_front.detect_limit[OF xq, of "retry_times s" "retried s" w] lim xt xk
            by (auto simp: cyc_run_def)
        next
          assume to: "rd = Inl PlaywrightTimeoutError" "retried sx + 1 < retry_times sx"
            "click_times_out_at w (clock sx) ''#recaptcha-reload-button''"
            "trace s3 = trace sx @ tl reload_block" "retried s3 = retried sx + 1"
            "retry_times s3 = retry_times sx"
          from run Text p d to(1) have rs: "r = Inl PlaywrightTimeoutError" "s' = s3"
            by (auto simp: cycle_def text_content_def Let_def split_beta)
          from to(4) xb[of "[]"] have t3: "trace s3 = trace s @ (HandleRecaptcha # ?q @ reload_block)"
            by simp
          from to(2) xk have "retried s + 1 < retry_times s" by simp
          from cyc_front.reload_timeout[OF sd(2) this to(3)]
          have "cyc w (retry_times s) (retried s) (HandleRecaptcha # ?q @ reload_block)
                  (Inl PlaywrightTimeoutError) (retried s3)"
            using to(5) xk by simp
          with t3 rs to(6) xk show ?thesis by (auto simp: cyc_run_def)
        next
          fix e2 assume lt: "retried sx + 1 < retry_times sx" "retry_times s3 = retry_times sx"
            and tr: "trace s3 = trace sx @ tl reload_block @ e2"
            and c: "cyc w (retry_times sx) (retried sx + 1) e2 rd (retried s3)"
          from tr xb[of e2] have t3: "trace s3 = trace s @ (HandleRecaptcha # ?q @ reload_block @ e2)"
            by simp
          from lt(1) xk have lt': "retried s + 1 < retry_times s" by simp
          from c xk have c': "cyc w (retry_times s) (retried s + 1) e2 rd (retried s3)" by simp
          from lt(2) xk have k3: "retry_times s3 = retry_times s" by simp
          show ?thesis
          proof (cases rd)
            case (Inl e)
            with run Text p d have rs: "r = Inl e" "s' = s3"
              by (auto simp: cycle_def text_content_def Let_def split_beta)
            from cyc_front.detect_raised[OF sd(2) lt' c'[unfolded Inl]]
            have "cyc w (retry_times s) (retried s) (HandleRecaptcha # ?q @ reload_block @ e2)
                    (Inl e) (retried s3)" .
            with t3 rs k3 show ?thesis by (auto simp: cyc_run_def)
          next
            case (Inr v)
            from cyc_front.front_retried[OF sd(2) lt' c'[unfolded Inr]]
            have "front w (retry_times s) (retried s) (HandleRecaptcha # ?q @ reload_block @ e2)
                    v (retried s3)" .
            with t3 k3 have "front_run w s v s3" by (auto simp: front_run_def)
            moreover from run Text p d Inr have "after_detection w H n p ?a v s3 = Some (r, s')"
              by (simp add: cycle_def text_content_def Let_def split_beta)
            ultimately show ?thesis using after_detection_sound[OF IH] by blast
          qed
        qed
      qed
    qed
  qed
qed

lemma handle_recaptcha_sound:
  "handle_recaptcha w n s = Some (r, s') \<Longrightarrow> cyc_run w s r s'"
proof (induction n arbitrary: s r s')
  case 0
  then show ?case by simp
next
  case (Suc n)
  from Suc.prems have "cycle w (handle_recaptcha w n) n s = Some (r, s')" by simp
  moreover have "sound_call w (handle_recaptcha w n)"
    using Suc.IH by (simp add: sound_call_def)
  ultimately show ?case using cycle_sound by blast
qed

lemma handle_recaptcha_cyc:
  assumes "handle_recaptcha w n s = Some (r, s')"
  shows "cyc w (retry_times s) (retried s) (new_events s s') r (retried s')
         \<and> retry_times s' = retry_times s \<and> trace s' = trace s @ new_events s s'"
  using handle_recaptcha_sound[OF assms] by (auto simp: cyc_run_def new_events_def)

lemma solve_recaptcha_run:
  assumes "solve_recaptcha w n s = Some (r, s')"
  shows "(r = Inr (Flag False) \<and> retried s' = retried s \<and> retry_times s' = retry_times s
          \<and> new_events s s' =
               [ResetValues, Click ''.recaptcha-checkbox-border'', WaitForLabel,
                Print ''[ERROR] reCaptcha Challenge is not visible.''])
       \<or> (\<exists>evs. cyc w (retry_times s) (retried s) evs r (retried s')
             \<and> retry_times s' = retry_times s
             \<and> new_events s s' =
                 [ResetValues, Click ''.recaptcha-checkbox-border'', WaitForLabel,
                  WaitForTimeout 2000] @ evs)"
proof -
  let ?s3 = "snd (check_captcha_visible w (snd (click_checkbox w (reset_values s))))"
  let ?sh = "wait_for_timeout w 2000 ?s3"
  have t3: "trace ?s3 = trace s @ [ResetValues, Click ''.recaptcha-checkbox-border'', WaitForLabel]"
    and k3: "retried ?s3 = retried s" "retry_times ?s3 = retry_times s"
    by (simp_all add: check_captcha_visible_def click_checkbox_def split_beta)
  show ?thesis
  proof (cases "fst (check_captcha_visible w (snd (click_checkbox w (reset_values s))))")
    case False
    with assms have "r = Inr (Flag False)"
      "s' = log (Print ''[ERROR] reCaptcha Challenge is not visible.'') ?s3"
      by (auto simp: solve_recaptcha_def Let_def split_beta)
    with t3 k3 show ?thesis by (simp add: new_events_def)
  next
    case True
    with assms have "handle_recaptcha w n ?sh = Some (r, s')"
      by (auto simp: solve_recaptcha_def Let_def split_beta)
    from handle_recaptcha_cyc[OF this] t3 k3
    have c: "cyc w (retry_times s) (retried s) (new_events ?sh s') r (retried s')"
      and k: "retry_times s' = retry_times s"
      and t: "trace s' = trace s @ [ResetValues, Click ''.recaptcha-checkbox-border'', WaitForLabel,
                  WaitForTimeout 2000] @ new_events ?sh s'"
      by (simp_all add: wait_for_timeout_def)
    from new_events_append[OF t] c k show ?thesis by blast
  qed
qed

lemma handle_recaptcha_extends:
  "\<forall>s r s'. handle_recaptcha w n s = Some (r, s') \<longrightarrow> extends s s'"
  using handle_recaptcha_cyc by (auto simp: extends_def)

lemma after_detection_extends:
  assumes H: "\<forall>s r s'. H s = Some (r, s') \<longrightarrow> extends s s'"
    and run: "after_detection w H n p a v s = Some (r, s')"
  shows "extends s s'"
proof -
  let ?loop = "if dynamic s \<and> \<not> a then dynamic_loop w n H p a v s else Some (Inr v, s)"
  from run obtain rl s4 where l: "?loop = Some (rl, s4)"
    by (cases ?loop) (auto simp: after_detection_def submit_and_wait_def)
  then have lr: "(rl = Inr v \<and> s4 = s) \<or> (rl = Inr (Flag False) \<and> quiet_step s s4)"
    using dynamic_loop_result[of w n H p a v s rl s4] by (auto split: if_splits)
  then have e4: "extends s s4" using quiet_step_extends by auto
  from lr obtain nyp where nyp: "rl = Inr nyp" by auto
  show ?thesis
  proof (cases nyp)
    case (Str t)
    with run l nyp have "s' = s4" by (auto simp: after_detection_def submit_and_wait_def)
    with e4 show ?thesis by simp
  next
    case (Flag x)
    let ?s5 = "submit w s4"
    obtain tk s6 where tw: "token_wait w 5 ?s5 = (tk, s6)" by (cases "token_wait w 5 ?s5")
    have "quiet_step ?s5 s6" using token_wait_quiet[of ?s5 w 5] tw by simp
    then have "quiet_step s4 s6" using quiet_step_trans[OF quiet_step_submit] by blast
    then have e6: "extends s s6" using extends_trans[OF e4 quiet_step_extends] by blast
    let ?s7 = "s6\<lparr>retried := retried s6 + 1\<rparr>"
    have e7: "extends s ?s7" using e6 by (simp add: extends_def)
    from run l nyp Flag tw have "s' = s6 \<or> s' = ?s7 \<or> H ?s7 = Some (r, s')"
      by (auto simp: after_detection_def submit_and_wait_def Let_def split: option.splits if_splits)
    then show ?thesis using e6 e7 H extends_trans[OF e7] by blast
  qed
qed

lemma detect_tiles_trace:
  assumes H: "\<forall>s r s'. H s = Some (r, s') \<longrightarrow> extends s s'"
    and run: "detect_tiles w H p a v s = Some (r, s')"
  shows "\<exists>rest. trace s' = trace s @ DetectTiles p a v # Screenshot # rest"
proof -
  let ?s1 = "await w Screenshot (log (DetectTiles p a v) s)"
  let ?d = "detect w p (screenshot_at w (clock s)) a"
  let ?sx = "log (Print ''[ERROR] Detector did not return any Results.'') ?s1"
  have t1: "trace ?s1 = trace s @ [DetectTiles p a v, Screenshot]" by simp
  have "extends ?s1 s'"
  proof (cases "True \<in> set (fst ?d)")
    case True
    with run have "s' = click_coordinates w (snd ?d) ?s1"
      by (simp add: detect_tiles_def Let_def split_beta)
    then show ?thesis using quiet_step_extends[OF quiet_step_click_coordinates] by simp
  next
    case False
    show ?thesis
    proof (cases v)
      case True
      with run False have "s' = ?s1" by (simp add: detect_tiles_def Let_def split_beta)
      then show ?thesis by simp
    next
      case nv: False
      with run False have rt: "retry w H False ?sx = Some (r, s')"
        by (simp add: detect_tiles_def Let_def split_beta)
      let ?s2 = "?sx\<lparr>retried := retried ?sx + 1\<rparr>"
      let ?sR = "snd (click w ''#recaptcha-reload-button''
                   (log (Print ''[INFO] Reloading Captcha and Retrying'') (reset_values ?s2)))"
      have ex: "extends ?s1 ?s2" "extends ?s1 ?sR" by (simp_all add: extends_def)
      from rt have "s' = ?s2 \<or> s' = ?sR \<or> H ?sR = Some (r, s')"
        by (auto simp: retry_def Let_def split_beta split: if_splits)
      then show ?thesis using ex H extends_trans[OF ex(2)] by blast
    qed
  qed
  then obtain evs where "trace s' = trace ?s1 @ evs" by (auto simp: extends_def)
  with t1 have "trace s' = trace s @ DetectTiles p a v # Screenshot # evs" by simp
  then show ?thesis by blast
qed

section \<open>The trace determines the challenger\<close>

lemma request_handler_retried:
  "request_handler r (s\<lparr>retried := k\<rparr>) = (request_handler r s)\<lparr>retried := k\<rparr>"
  by (simp add: request_handler_def Let_def split: response_result.splits option.splits)

lemma fold_request_handler_retried:
  "fold request_handler rs (s\<lparr>retried := k\<rparr>) = (fold request_handler rs s)\<lparr>retried := k\<rparr>"
  by (induction rs arbitrary: s) (simp_all add: request_handler_retried)

lemma log_retried: "log e (s\<lparr>retried := k\<rparr>) = (log e s)\<lparr>retried := k\<rparr>"
  by (simp add: log_def)

lemma deliver_retried: "deliver w (s\<lparr>retried := k\<rparr>) = (deliver w s)\<lparr>retried := k\<rparr>"
  by (simp add: deliver_def fold_request_handler_retried)

lemma await_retried: "await w e (s\<lparr>retried := k\<rparr>) = (await w e s)\<lparr>retried := k\<rparr>"
  by (simp only: await_def log_retried deliver_retried)

lemma replay_event_retried:
  "replay_event w e (s\<lparr>retried := k\<rparr>) = (replay_event w e s)\<lparr>retried := k\<rparr>"
  by (cases e) (simp_all add: await_retried log_def)

lemma replay_retried: "replay w evs (s\<lparr>retried := k\<rparr>) = (replay w evs s)\<lparr>retried := k\<rparr>"
  by (induction evs arbitrary: s) (simp_all add: replay_def replay_event_retried)

lemma replay_append: "replay w (xs @ ys) s = replay w ys (replay w xs s)"
  by (simp add: replay_def)

lemma replays_refl [simp]: "replays w s s"
  unfolding replays_def by (rule exI[of _ "[]"]) (simp add: replay_def)

lemma replays_trans:
  assumes "replays w s s1" "replays w s1 s2"
  shows "replays w s s2"
proof -
  from assms(1) obtain e1 where 1: "trace s1 = trace s @ e1"
    "s1 = (replay w e1 s)\<lparr>retried := retried s1\<rparr>" by (auto simp: replays_def)
  from assms(2) obtain e2 where 2: "trace s2 = trace s1 @ e2"
    "s2 = (replay w e2 s1)\<lparr>retried := retried s2\<rparr>" by (auto simp: replays_def)
  have "replay w e2 s1 = (replay w (e1 @ e2) s)\<lparr>retried := retried s1\<rparr>"
    by (subst 1(2)) (simp add: replay_retried replay_append)
  then have "s2 = (replay w (e1 @ e2) s)\<lparr>retried := retried s2\<rparr>"
    by (subst 2(2)) simp
  moreover have "trace s2 = trace s @ (e1 @ e2)" using 1(1) 2(1) by simp
  ultimately show ?thesis unfolding replays_def by blast
qed

lemma replays_event:
  "replays w s (replay_event w e s)"
  unfolding replays_def
  by (rule exI[of _ "[e]"]) (cases e; simp add: replay_def)

lemma replays_retried [simp]: "replays w s (s\<lparr>retried := k\<rparr>)"
  unfolding replays_def by (rule exI[of _ "[]"]) (simp add: replay_def)


lemma replays_await: "replay_event w e s = await w e s \<Longrightarrow> replays w s (await w e s)"
  using replays_event[of w s e] by simp

lemma replays_log: "replay_event w e s = log e s \<Longrightarrow> replays w s (log e s)"
  using replays_event[of w s e] by simp

lemma replays_reset: "replays w s (reset_values s)"
  using replays_event[of w s ResetValues] by (simp add: reset_values_def)

lemma replays_wait: "replays w s (wait_for_timeout w ms s)"
  by (simp add: wait_for_timeout_def replays_await)

lemma replays_click: "replays w s (snd (click w selector s))"
  by (simp add: click_def replays_await)

lemma replays_evaluate: "replays w s (snd (evaluate w script s))"
  by (simp add: evaluate_def replays_await)

lemma replays_check_result: "replays w s (snd (check_result w s))"
  using replays_evaluate[of w s "''grecaptcha.getResponse()''"]
    replays_trans[OF replays_evaluate[of w s "''grecaptcha.getResponse()''"]
      replays_evaluate[of w _ "''grecaptcha.enterprise.getResponse()''"]]
  by (auto simp: check_result_def Let_def split_beta split: eval_result.splits)

lemma replays_query_tiles: "replays w s (snd (query_tiles w s))"
  by (simp add: query_tiles_def replays_await)

lemma replays_poll_loop: "replays w s (snd (poll_loop w k tiles s))"
proof (induction k arbitrary: tiles s)
  case 0
  then show ?case by simp
next
  case (Suc k)
  show ?case
  proof (cases "tiles = 9 \<or> tiles = 16")
    case True
    then show ?thesis by auto
  next
    case False
    have "replays w s (snd (query_tiles w (wait_for_timeout w 1000 s)))"
      using replays_trans[OF replays_wait replays_query_tiles] .
    from replays_trans[OF this Suc.IH] False show ?thesis
      by (simp add: split_beta Let_def)
  qed
qed

lemma replays_poll_tiles: "replays w s (snd (poll_tiles w s))"
  using replays_trans[OF replays_query_tiles replays_poll_loop]
  by (simp add: poll_tiles_def split_beta)

lemma replays_visible: "replays w s (snd (check_captcha_visible w s))"
  by (simp add: check_captcha_visible_def replays_await)

lemma replays_submit: "replays w s (submit w s)"
proof -
  let ?s1 = "snd (click w ''#recaptcha-verify-button'' s)"
  let ?s2 = "snd (check_captcha_visible w ?s1)"
  have a: "replays w s ?s1" by (rule replays_click)
  have b: "replays w s ?s2" using replays_trans[OF a replays_visible] .
  have c: "replays w s (log (Print ''[WARNING] Could not submit challenge. Verify Button did not load.'') ?s2)"
    by (rule replays_trans[OF b]) (simp add: replays_log)
  show ?thesis using a b c by (simp add: submit_def split_beta)
qed

lemma replays_click_coordinates: "replays w s (click_coordinates w cs s)"
proof (induction cs arbitrary: s)
  case Nil
  then show ?case by simp
next
  case (Cons c cs)
  obtain x y where c: "c = (x, y)" by (cases c)
  let ?s1 = "await w (MouseClick x y) s"
  let ?s2 = "case click_timeout ?s1 of None \<Rightarrow> ?s1
             | Some t \<Rightarrow> if t \<noteq> 0 then wait_for_timeout w t ?s1 else ?s1"
  have a: "replays w s ?s1" by (simp add: replays_await)
  have "replays w ?s1 ?s2" by (auto split: option.splits simp: replays_wait)
  from replays_trans[OF replays_trans[OF a this] Cons.IH] show ?case
    by (simp add: c Let_def)
qed

lemma replays_token_wait: "replays w s (snd (token_wait w k s))"
proof (induction k arbitrary: s)
  case 0
  then show ?case by simp
next
  case (Suc k)
  let ?s1 = "snd (check_result w s)"
  have "replays w s (wait_for_timeout w 1000 ?s1)"
    using replays_trans[OF replays_check_result replays_wait] .
  from replays_trans[OF this Suc.IH] replays_check_result[of w s] show ?case
    by (auto simp: split_beta Let_def split: option.splits)
qed

lemma replays_callD: "replays_call w H \<Longrightarrow> H s = Some (r, s') \<Longrightarrow> replays w s s'"
  by (simp add: replays_call_def)

lemma replays_retry:
  assumes H: "replays_call w H" and run: "retry w H verify s = Some (r, s')"
  shows "replays w s s'"
proof -
  let ?s1 = "s\<lparr>retried := retried s + 1\<rparr>"
  let ?s2 = "reset_values ?s1"
  let ?sn = "log (Print ''[INFO] Reloading Captcha and Retrying'') ?s2"
  let ?s3 = "snd (if verify then click w ''#recaptcha-verify-button'' ?s2
                  else click w ''#recaptcha-reload-button'' ?sn)"
  have 2: "replays w s ?s2" using replays_trans[OF replays_retried replays_reset] .
  have n: "replays w s ?sn" by (rule replays_trans[OF 2]) (simp add: replays_log)
  have 3: "replays w s ?s3"
    using replays_trans[OF 2 replays_click] replays_trans[OF n replays_click] by simp
  from run have "s' = ?s1 \<or> s' = ?s3 \<or> H ?s3 = Some (r, s')"
    by (auto simp: retry_def Let_def split_beta split: if_splits)
  then show ?thesis using 3 replays_trans[OF 3 replays_callD[OF H]] by auto
qed

lemma replays_detect_tiles:
  assumes H: "replays_call w H" and run: "detect_tiles w H p a v s = Some (r, s')"
  shows "replays w s s'"
proof -
  let ?s0 = "log (DetectTiles p a v) s"
  let ?s1 = "await w Screenshot ?s0"
  let ?sx = "log (Print ''[ERROR] Detector did not return any Results.'') ?s1"
  have 1: "replays w s ?s1"
    by (rule replays_trans[of _ _ ?s0]) (simp_all add: replays_log replays_await)
  have x: "replays w s ?sx" by (rule replays_trans[OF 1]) (simp add: replays_log)
  have c: "replays w s (click_coordinates w cs ?s1)" for cs
    using replays_trans[OF 1 replays_click_coordinates] .
  from run have "s' = ?s1 \<or> (\<exists>cs. s' = click_coordinates w cs ?s1)
      \<or> retry w H False ?sx = Some (r, s')"
    by (auto simp: detect_tiles_def Let_def split_beta split: if_splits)
  then show ?thesis using 1 c replays_trans[OF x replays_retry[OF H]] by auto
qed

lemma replays_dynamic_loop:
  assumes H: "replays_call w H"
  shows "dynamic_loop w n H p a v s = Some (r, s') \<Longrightarrow> replays w s s'"
proof (induction n arbitrary: v s)
  case 0
  then show ?case by (auto split: if_splits)
next
  case (Suc n)
  show ?case
  proof (cases "truthy v")
    case False
    with Suc.prems show ?thesis by auto
  next
    case True
    let ?s1 = "wait_for_timeout w 5000 s"
    from Suc.prems True have
      "(\<exists>e. detect_tiles w H p a True ?s1 = Some (Inl e, s'))
       \<or> (\<exists>r1 s2. detect_tiles w H p a True ?s1 = Some (Inr r1, s2)
             \<and> dynamic_loop w n H p a r1 s2 = Some (r, s'))"
      by (auto split: option.splits sum.splits prod.splits)
    then show ?thesis
    proof (elim disjE exE conjE)
      fix e assume "detect_tiles w H p a True ?s1 = Some (Inl e, s')"
      from replays_trans[OF replays_wait replays_detect_tiles[OF H this]] show ?thesis .
    next
      fix r1 s2 assume d: "detect_tiles w H p a True ?s1 = Some (Inr r1, s2)"
        and l: "dynamic_loop w n H p a r1 s2 = Some (r, s')"
      have "replays w s s2" using replays_trans[OF replays_wait replays_detect_tiles[OF H d]] .
      from replays_trans[OF this Suc.IH[OF l]] show ?thesis .
    qed
  qed
qed

lemma replays_submit_and_wait:
  assumes H: "replays_call w H" and run: "submit_and_wait w H v s = Some (r, s')"
  shows "replays w s s'"
proof -
  let ?s2 = "snd (token_wait w 5 (submit w s))"
  let ?s3 = "?s2\<lparr>retried := retried ?s2 + 1\<rparr>"
  have 2: "replays w s ?s2" using replays_trans[OF replays_submit replays_token_wait] .
  have 3: "replays w s ?s3" using replays_trans[OF 2 replays_retried] .
  from run have "s' = s \<or> s' = ?s2 \<or> s' = ?s3 \<or> H ?s3 = Some (r, s')"
    by (auto simp: submit_and_wait_def Let_def split_beta
        split: pyval.splits option.splits if_splits)
  then show ?thesis using 2 3 replays_trans[OF 3 replays_callD[OF H]] by auto
qed

lemma replays_after_detection:
  assumes H: "replays_call w H" and run: "after_detection w H n p a v s = Some (r, s')"
  shows "replays w s s'"
proof -
  let ?loop = "if dynamic s \<and> \<not> a then dynamic_loop w n H p a v s else Some (Inr v, s)"
  have l: "replays w s s1" if "?loop = Some (rl, s1)" for rl s1
    using that replays_dynamic_loop[OF H] by (auto split: if_splits)
  from run have "(\<exists>e. ?loop = Some (Inl e, s'))
      \<or> (\<exists>nyp s1. ?loop = Some (Inr nyp, s1) \<and> submit_and_wait w H nyp s1 = Some (r, s'))"
    by (auto simp: after_detection_def split: option.splits sum.splits prod.splits)
  then show ?thesis
    using l replays_trans[OF l replays_submit_and_wait[OF H]] by blast
qed

lemma replays_cycle:
  assumes H: "replays_call w H" and run: "cycle w H n s = Some (r, s')"
  shows "replays w s s'"
proof -
  let ?s0 = "log HandleRecaptcha s"
  let ?s1 = "await w TextContent ?s0"
  let ?s2 = "snd (check_result w ?s1)"
  let ?s3 = "log (Print ''[ERROR] reCaptcha Frame did not load.'') ?s2"
  let ?sp = "snd (poll_tiles w ?s1)"
  have 1: "replays w s ?s1"
    by (rule replays_trans[of _ _ ?s0]) (simp_all add: replays_log replays_await)
  have 2: "replays w s ?s2" using replays_trans[OF 1 replays_check_result] .
  have 3: "replays w s ?s3" by (rule replays_trans[OF 2]) (simp add: replays_log)
  have p: "replays w s ?sp" using replays_trans[OF 1 replays_poll_tiles] .
  from run have "s' = ?s1 \<or> s' = ?s2 \<or> s' = ?s3
      \<or> (\<exists>p a. detect_tiles w H p a a ?sp = Some (r, s'))
      \<or> (\<exists>p a v sd. detect_tiles w H p a a ?sp = Some (Inr v, sd)
            \<and> after_detection w H n p a v sd = Some (r, s'))"
    by (auto simp: cycle_def text_content_def Let_def split_beta
        split: text_result.splits option.splits if_splits sum.splits prod.splits)
  then show ?thesis
  proof (elim disjE exE conjE)
    fix p a v sd assume d: "detect_tiles w H p a a ?sp = Some (Inr v, sd)"
      and a: "after_detection w H n p a v sd = Some (r, s')"
    from replays_trans[OF replays_trans[OF p replays_detect_tiles[OF H d]]
        replays_after_detection[OF H a]]
    show ?thesis .
  next
    fix p a assume "detect_tiles w H p a a ?sp = Some (r, s')"
    from replays_trans[OF p replays_detect_tiles[OF H this]] show ?thesis .
  qed (use 1 2 3 in simp_all)
qed

lemma replays_handle_recaptcha:
  "handle_recaptcha w n s = Some (r, s') \<Longrightarrow> replays w s s'"
proof (induction n arbitrary: s r s')
  case 0
  then show ?case by simp
next
  case (Suc n)
  from Suc.prems have "cycle w (handle_recaptcha w n) n s = Some (r, s')" by simp
  moreover have "replays_call w (handle_recaptcha w n)"
    using Suc.IH by (simp add: replays_call_def)
  ultimately show ?case using replays_cycle by blast
qed

lemma replays_solve_recaptcha:
  assumes "solve_recaptcha w n s = Some (r, s')"
  shows "replays w s s'"
proof -
  let ?s2 = "snd (click_checkbox w (reset_values s))"
  let ?s3 = "snd (check_captcha_visible w ?s2)"
  let ?s4 = "log (Print ''[ERROR] reCaptcha Challenge is not visible.'') ?s3"
  let ?sh = "wait_for_timeout w 2000 ?s3"
  have "replays w s ?s2"
    using replays_trans[OF replays_reset replays_click]
    by (simp add: click_checkbox_def split_beta)
  from replays_trans[OF this replays_visible] have 3: "replays w s ?s3" .
  have 4: "replays w s ?s4" by (rule replays_trans[OF 3]) (simp add: replays_log)
  have h: "replays w s ?sh" using replays_trans[OF 3 replays_wait] .
  from assms have "s' = ?s4 \<or> handle_recaptcha w n ?sh = Some (r, s')"
    by (auto simp: solve_recaptcha_def Let_def split_beta split: if_splits)
  then show ?thesis using 4 replays_trans[OF h replays_handle_recaptcha] by auto
qed

lemma solve_recaptcha_replay:
  assumes "solve_recaptcha w n s = Some (r, s')"
  shows "s' = (replay w (new_events s s') s)\<lparr>retried := retried s'\<rparr>"
  using replays_solve_recaptcha[OF assms] by (auto simp: replays_def new_events_def)

section \<open>What the shape implies\<close>

lemma quiet_counts:
  "quiet q \<Longrightarrow> count_list q HandleRecaptcha = 0"
  "quiet q \<Longrightarrow> count_list q ResetValues = 0"
  "quiet q \<Longrightarrow> count_list q (Click ''#recaptcha-reload-button'') = 0"
  by (simp_all add: quiet_def count_list_0_iff)

lemma reload_block_counts [simp]:
  "count_list reload_block HandleRecaptcha = 0"
  "count_list reload_block ResetValues = 1"
  "count_list reload_block (Click ''#recaptcha-reload-button'') = 1"
  by (simp_all add: reload_block_def)

lemma cyc_counters:
  shows "cyc w rt a evs r b \<Longrightarrow>
           a \<le> b \<and> (r = Inl RecursionError \<longrightarrow> b = max rt (a + 1))
           \<and> (r \<noteq> Inl RecursionError \<longrightarrow> b = a \<or> b < rt)
           \<and> int (count_list evs HandleRecaptcha)
               = b - a + (if r = Inl RecursionError \<or> r = Inl PlaywrightTimeoutError
                          then 0 else 1)"
    and "front w rt a f v b \<Longrightarrow>
           a \<le> b \<and> (b = a \<or> b < rt) \<and> int (count_list f HandleRecaptcha) = b - a + 1"
  by (induction rule: cyc_front.inducts) (auto simp: quiet_counts)

lemma cyc_resets:
  shows "cyc w rt a evs r b \<Longrightarrow>
           count_list evs ResetValues = count_list evs (Click ''#recaptcha-reload-button'')"
    and "front w rt a f v b \<Longrightarrow>
           count_list f ResetValues = count_list f (Click ''#recaptcha-reload-button'')"
  by (induction rule: cyc_front.inducts) (auto simp: quiet_counts)

lemma cyc_results:
  shows "cyc w rt a evs r b \<Longrightarrow>
           (\<forall>v. r = Inr v \<longrightarrow> v = Flag False \<or> (\<exists>t. t \<noteq> [] \<and> v = Str t))
           \<and> (r = Inl ValueError \<longrightarrow>
                (\<exists>t. text_content_at w t = Text None \<or> text_content_at w t = Text (Some [])))
           \<and> (r = Inl PlaywrightTimeoutError \<longrightarrow>
                (\<exists>t. click_times_out_at w t ''#recaptcha-reload-button''))"
    and "front w rt a f v b \<Longrightarrow> (\<forall>t. v = Str t \<longrightarrow> t \<noteq> [])"
  by (induction rule: cyc_front.inducts) auto

lemma restarts_ok_append:
  "restarts_ok h (xs @ ys) = (restarts_ok h xs \<and> restarts_ok (h @ xs) ys)"
  by (induction xs arbitrary: h) auto

lemma restarts_ok_quiet: "quiet q \<Longrightarrow> restarts_ok h q"
  by (induction q arbitrary: h) auto

lemma after_reload_block [simp]: "after_reload (h @ reload_block)"
  by (simp add: after_reload_def reload_block_def)

lemma after_wait_snoc [simp]: "after_wait (h @ [WaitForTimeout 1000])"
  by (simp add: after_wait_def)

lemma restarts_ok_reload_block [simp]: "restarts_ok h reload_block"
  by (simp add: reload_block_def)

lemma restarting_quiet: "quiet q \<Longrightarrow> restarting (HandleRecaptcha # q)"
  by (simp add: restarting_def restarts_ok_quiet)

lemma restarting_reload:
  assumes "quiet q" "restarting e2"
  shows "restarting (HandleRecaptcha # q @ reload_block @ e2)"
proof -
  from assms(2) obtain rest where e2: "e2 = HandleRecaptcha # rest"
    and ok: "\<And>h. restarts_ok (h @ [HandleRecaptcha]) rest" by (auto simp: restarting_def)
  have "restarts_ok (h @ [HandleRecaptcha]) (q @ reload_block @ e2)" for h
    using ok[of "h @ [HandleRecaptcha] @ q @ reload_block"] assms(1)
      after_reload_block[of "h @ [HandleRecaptcha] @ q"]
    by (simp add: restarts_ok_append restarts_ok_quiet e2)
  then show ?thesis by (simp add: restarting_def)
qed

lemma restarting_quiet_tail:
  assumes "restarting f" "quiet q"
  shows "restarting (f @ q)"
proof -
  from assms(1) obtain rest where f: "f = HandleRecaptcha # rest"
    and ok: "\<And>h. restarts_ok (h @ [HandleRecaptcha]) rest" by (auto simp: restarting_def)
  have "restarts_ok (h @ [HandleRecaptcha]) (rest @ q)" for h
    using ok[of h] assms(2) by (simp add: restarts_ok_append restarts_ok_quiet)
  then show ?thesis by (simp add: restarting_def f)
qed

lemma restarting_wait:
  assumes "restarting f" "quiet q" "restarting e2"
  shows "restarting (f @ q @ WaitForTimeout 1000 # e2)"
proof -
  from assms(1) obtain rest where f: "f = HandleRecaptcha # rest"
    and ok: "\<And>h. restarts_ok (h @ [HandleRecaptcha]) rest" by (auto simp: restarting_def)
  from assms(3) obtain rest2 where e2: "e2 = HandleRecaptcha # rest2"
    and ok2: "\<And>h. restarts_ok (h @ [HandleRecaptcha]) rest2" by (auto simp: restarting_def)
  have "restarts_ok (h @ [HandleRecaptcha]) (rest @ q @ WaitForTimeout 1000 # e2)" for h
    using ok[of h] assms(2) ok2[of "h @ [HandleRecaptcha] @ rest @ q @ [WaitForTimeout 1000]"]
      after_wait_snoc[of "h @ [HandleRecaptcha] @ rest @ q"]
    by (simp add: restarts_ok_append restarts_ok_quiet e2)
  then show ?thesis by (simp add: restarting_def f)
qed

lemma cyc_restarting:
  shows "cyc w rt a evs r b \<Longrightarrow> restarting evs"
    and "front w rt a f v b \<Longrightarrow> restarting f"
proof (induction rule: cyc_front.inducts)
  case (no_prompt t a)
  then show ?case by (simp add: restarting_def)
next
  case (reload_timeout q a t)
  then show ?case by (simp add: restarting_def restarts_ok_append restarts_ok_quiet)
next
  case (wait_limit a f v b q)
  have "quiet (q @ [WaitForTimeout 1000])" using wait_limit by simp
  moreover have "restarting f" using wait_limit.IH by simp
  ultimately show ?case using restarting_quiet_tail[of f "q @ [WaitForTimeout 1000]"] by simp
qed (auto intro: restarting_quiet restarting_reload restarting_quiet_tail restarting_wait)

lemma resets_paired_quiet:
  "quiet q \<Longrightarrow> resets_paired before (q @ es) = resets_paired (last (before # q)) es"
  by (induction q arbitrary: before) (auto simp: quiet_def)

lemma resets_paired_reload:
  "resets_paired before (reload_block @ es)
     = resets_paired (Click ''#recaptcha-reload-button'') es"
  by (simp add: reload_block_def)

lemma reload_block_not_Nil [simp]: "reload_block \<noteq> []"
  by (simp add: reload_block_def)

lemma last_reload_block [simp]: "last reload_block = Click ''#recaptcha-reload-button''"
  by (simp add: reload_block_def)

lemma cyc_resets_paired:
  shows "cyc w rt a evs r b \<Longrightarrow>
           evs \<noteq> [] \<and> (\<forall>before es. resets_paired before (evs @ es) = resets_paired (last evs) es)"
    and "front w rt a f v b \<Longrightarrow>
           f \<noteq> [] \<and> (\<forall>before es. resets_paired before (f @ es) = resets_paired (last f) es)"
proof (induction rule: cyc_front.inducts)
  case (no_frame q v a)
  then show ?case using resets_paired_quiet[of q HandleRecaptcha] by simp
next
  case (no_prompt t a)
  then show ?case by simp
next
  case (detect_limit q a)
  then show ?case using resets_paired_quiet[of q HandleRecaptcha] by simp
next
  case (reload_timeout q a t)
  then show ?case
    using resets_paired_quiet[of q HandleRecaptcha] by (simp add: resets_paired_reload)
next
  case (detect_raised q a e2 e b)
  then show ?case
    using resets_paired_quiet[of q HandleRecaptcha] by (simp add: resets_paired_reload)
next
  case (front_plain q a x)
  then show ?case using resets_paired_quiet[of q HandleRecaptcha] by simp
next
  case (front_retried q a e2 v b)
  then show ?case
    using resets_paired_quiet[of q HandleRecaptcha] by (simp add: resets_paired_reload)
next
  case (inner_token a f t b)
  then show ?case by simp
next
  case (token_found a f v b q t)
  then show ?case using resets_paired_quiet[of q "last f"] by simp
next
  case (wait_limit a f v b q)
  then show ?case using resets_paired_quiet[of q "last f"] by simp
next
  case (wait_restart a f v b q e2 r c)
  then show ?case using resets_paired_quiet[of q "last f"] by simp
qed

section \<open>The concrete runs\<close>

text \<open>The concrete runs, by unfolding the operations.\<close>

lemmas run_defs = solve_recaptcha_def AsyncChallenger_def
  click_checkbox_def click_def check_captcha_visible_def wait_for_timeout_def cycle_def
  after_detection_def submit_and_wait_def submit_def check_result_def evaluate_def
  text_content_def poll_tiles_def query_tiles_def detect_tiles_def retry_def
  await_def deliver_def log_def reset_values_def Let_def eval_nat_numeral

lemma run_limit_once:
  "solve_recaptcha world_no_match 1 (AsyncChallenger None 1) = Some (Inl RecursionError, limit_once)"
  by (simp add: run_defs world_no_match_def limit_once_def)

lemma run_limit_twice:
  "solve_recaptcha world_no_match 1 limit_once = Some (Inl RecursionError, limit_twice)"
  by (simp add: run_defs world_no_match_def limit_once_def limit_twice_def)

lemma run_reset_twice:
  "solve_recaptcha world_no_match 2 (AsyncChallenger None 2) = Some (Inl RecursionError, reset_twice)"
  by (simp add: run_defs world_no_match_def reset_twice_def)

lemma run_solved_after_reload:
  "solve_recaptcha world_token_after_reload 2 (AsyncChallenger None 3)
     = Some (Inr (Str ''03AGdBq2''), solved_after_reload)"
  by (simp add: run_defs world_token_after_reload_def solved_after_reload_def)


lemma run_restarted_after_wait:
  "solve_recaptcha world_no_token 2 (AsyncChallenger None 15)
     = Some (Inr (Flag False), restarted_after_wait)"
  by (simp add: run_defs world_no_token_def restarted_after_wait_def)

lemma run_handled_after_wait:
  "handle_recaptcha world_no_token 2 (AsyncChallenger None 15)
     = Some (Inr (Flag False), handled_after_wait)"
  by (simp add: run_defs world_no_token_def handled_after_wait_def)

lemma run_limit_on_wait:
  "solve_recaptcha world_no_token 1 (AsyncChallenger None 1)
     = Some (Inl RecursionError, limit_on_wait)"
  by (simp add: run_defs world_no_token_def limit_on_wait_def)

lemma run_prompt_missing:
  "solve_recaptcha world_empty_prompt 1 (AsyncChallenger None 15)
     = Some (Inl ValueError, prompt_missing)"
  by (simp add: run_defs world_empty_prompt_def prompt_missing_def)

lemma run_reload_timed_out:
  "solve_recaptcha world_reload_times_out 1 (AsyncChallenger None 15)
     = Some (Inl PlaywrightTimeoutError, reload_timed_out)"
  by (simp add: run_defs world_reload_times_out_def reload_timed_out_def)

lemma run_dynamic_solved:
  "solve_recaptcha world_dynamic 2 (AsyncChallenger None 15)
     = Some (Inr (Str ''03AGdBq2''), dynamic_solved)"
  by (simp add: run_defs world_dynamic_def dynamic_solved_def reload_request_handled)

lemma run_area_solved:
  "handle_recaptcha world_slow_grid 1 (AsyncChallenger None 15)
     = Some (Inr (Str ''03AGdBq2''), area_solved)"
  by (simp add: run_defs world_slow_grid_def area_solved_def)

lemma run_token_ignored:
  "solve_recaptcha world_late_token 2 (AsyncChallenger None 15)
     = Some (Inr (Flag False), token_ignored)"
  by (simp add: run_defs world_late_token_def token_ignored_def userverify_request_handled)

section \<open>The network observer: the token of a verification response\<close>

text \<open>
  C5. For a request that the observer accepts (a provider domain in its URL), whose URL
  names the verification endpoint and whose response body is read: if the body has
  neither continuation marker (\<open>rresp\<close>, \<open>bgdata\<close>) and its first labelled token
  field holds the token \<open>tok\<close>, then \<open>captcha_token\<close> is \<open>tok\<close> afterwards; if the
  body has a continuation marker, \<open>captcha_token\<close> is left as it was.
\<close>

theorem request_handler_token:
  assumes "str_in ''google.com'' (url req) \<or> str_in ''recaptcha.net'' (url req)"
    and "str_in ''userverify'' (url req)"
    and "response req = Body body"
  shows "(\<not> str_in ''rresp'' body \<and> \<not> str_in ''bgdata'' body \<and>
          body = pre @ uvresp_field ws1 ws2 tok @ post \<and>
          list_all py_isspace ws1 \<and> list_all py_isspace ws2 \<and> tok \<noteq> [] \<and> dquote \<notin> set tok \<and>
          (\<forall>pre'. length pre' < length pre \<longrightarrow> \<not> field_at pre' body)
            \<longrightarrow> captcha_token (request_handler req s) = tok) \<and>
         (str_in ''rresp'' body \<or> str_in ''bgdata'' body
            \<longrightarrow> captcha_token (request_handler req s) = captcha_token s)"
proof (intro conjI impI)
  assume a: "\<not> str_in ''rresp'' body \<and> \<not> str_in ''bgdata'' body \<and>
          body = pre @ uvresp_field ws1 ws2 tok @ post \<and>
          list_all py_isspace ws1 \<and> list_all py_isspace ws2 \<and> tok \<noteq> [] \<and> dquote \<notin> set tok \<and>
          (\<forall>pre'. length pre' < length pre \<longrightarrow> \<not> field_at pre' body)"
  then have "re_search uvresp_pattern body = Some tok"
    using re_search_first_field[of body pre ws1 ws2 tok post] by blast
  moreover from a have "\<not> str_in ''rresp'' body" "\<not> str_in ''bgdata'' body" by blast+
  ultimately show "captcha_token (request_handler req s) = tok"
    using assms by (auto simp: request_handler_def Let_def)
next
  assume "str_in ''rresp'' body \<or> str_in ''bgdata'' body"
  with assms show "captcha_token (request_handler req s) = captcha_token s"
    by (auto simp: request_handler_def)
qed

theorem request_handler_token_witness:
  "captcha_token (request_handler userverify_request (AsyncChallenger None 15)) = ''03AGdBq2''"
proof -
  let ?body = "''['' @ uvresp_field [] '' '' ''03AGdBq2'' @ '',1,120]''"
  have u: "str_in ''google.com'' (url userverify_request) \<or>
           str_in ''recaptcha.net'' (url userverify_request)"
    "str_in ''userverify'' (url userverify_request)"
    "response userverify_request = Body ?body"
    by (simp_all add: userverify_request_def)
  have m: "\<not> str_in ''rresp'' ?body" "\<not> str_in ''bgdata'' ?body"
    by (simp_all add: uvresp_field_def uvresp_label_def dquote_def)
  have f: "\<forall>pre'. length pre' < length ''['' \<longrightarrow> \<not> field_at pre' ?body"
    using no_field_before_bracket by simp
  have sp: "list_all py_isspace []" "list_all py_isspace '' ''" "''03AGdBq2'' \<noteq> []"
    "dquote \<notin> set ''03AGdBq2''"
    by (simp_all add: py_isspace_def dquote_def)
  show ?thesis
    using request_handler_token[OF u, of "''[''" "[]" "'' ''" "''03AGdBq2''" "'',1,120]''"
            "AsyncChallenger None 15"] m f sp
    by blast
qed

section \<open>The response accessors of the page\<close>

text \<open>
  C10. \<open>check_result\<close> evaluates the standard accessor first. When that evaluation
  succeeds its value is the result, the empty string included, and the enterprise
  accessor is not evaluated. When it raises, the enterprise accessor is evaluated next;
  its value is the result, and the result is \<open>None\<close> when it raises too.
\<close>

theorem check_result_standard_first:
  "(evaluate_at w (clock s) ''grecaptcha.getResponse()'' = Value v \<longrightarrow>
      fst (check_result w s) = Some v \<and>
      trace (snd (check_result w s)) = trace s @ [Evaluate ''grecaptcha.getResponse()'']) \<and>
   (evaluate_at w (clock s) ''grecaptcha.getResponse()'' = PlaywrightError \<longrightarrow>
      trace (snd (check_result w s)) =
        trace s @ [Evaluate ''grecaptcha.getResponse()'',
                   Evaluate ''grecaptcha.enterprise.getResponse()''] \<and>
      (evaluate_at w (Suc (clock s)) ''grecaptcha.enterprise.getResponse()'' = Value v \<longrightarrow>
         fst (check_result w s) = Some v) \<and>
      (evaluate_at w (Suc (clock s)) ''grecaptcha.enterprise.getResponse()'' = PlaywrightError
         \<longrightarrow> fst (check_result w s) = None))"
  by (simp add: check_result_def evaluate_def Let_def split: eval_result.splits)

theorem check_result_standard_first_witness:
  "fst (check_result world_empty_response (AsyncChallenger None 15)) = Some [] \<and>
   trace (snd (check_result world_empty_response (AsyncChallenger None 15))) =
     [Evaluate ''grecaptcha.getResponse()'']"
  using check_result_standard_first [of world_empty_response "AsyncChallenger None 15" "[]"]
  by (simp add: world_empty_response_def AsyncChallenger_def)

section \<open>The retry counter\<close>

lemma call_counters:
  assumes "solve_recaptcha w n s = Some (r, s') \<or> handle_recaptcha w n s = Some (r, s')"
  shows "retried s \<le> retried s' \<and> retry_times s' = retry_times s \<and>
         (retried s < retry_times s \<longrightarrow> retried s' \<le> retry_times s) \<and>
         (r = Inl RecursionError \<longleftrightarrow> retried s < retried s' \<and> retry_times s \<le> retried s') \<and>
         (\<forall>t. r = Inr (Str t) \<longrightarrow> retried s' = retried s \<or> retried s' < retry_times s)"
proof -
  have "(r = Inr (Flag False) \<and> retried s' = retried s \<and> retry_times s' = retry_times s)
        \<or> ((\<exists>evs. cyc w (retry_times s) (retried s) evs r (retried s'))
            \<and> retry_times s' = retry_times s)"
    using assms solve_recaptcha_run[of w n s r s'] handle_recaptcha_cyc[of w n s r s'] by blast
  then show ?thesis
  proof (elim disjE conjE exE)
    fix evs assume "cyc w (retry_times s) (retried s) evs r (retried s')"
      and "retry_times s' = retry_times s"
    with cyc_counters(1)[of w "retry_times s" "retried s" evs r "retried s'"]
    show ?thesis by auto
  qed auto
qed

text \<open>
  C1, as amended. In a call of \<open>solve_recaptcha\<close> or \<open>handle_recaptcha\<close> the counter
  \<open>retried\<close> never decreases and \<open>retry_times\<close> is not changed. When the call is
  entered with \<open>retried\<close> below \<open>retry_times\<close>, \<open>retried\<close> does not exceed
  \<open>retry_times\<close>. The call raises the retry-limit error exactly when an increment has
  brought \<open>retried\<close> to \<open>retry_times\<close> or beyond, so a token is only returned from a
  call in which no increment reached the limit.
\<close>

theorem retry_counter_bounded:
  assumes "solve_recaptcha w n s = Some (r, s') \<or> handle_recaptcha w n s = Some (r, s')"
  shows "retried s \<le> retried s' \<and> retry_times s' = retry_times s \<and>
         (retried s < retry_times s \<longrightarrow> retried s' \<le> retry_times s) \<and>
         (r = Inl RecursionError \<longleftrightarrow> retried s < retried s' \<and> retry_times s \<le> retried s') \<and>
         (\<forall>t. r = Inr (Str t) \<longrightarrow> retried s' = retried s \<or> retried s' < retry_times s)"
  using assms by (rule call_counters)

theorem retry_counter_bounded_witness:
  "retried limit_on_wait = 1 \<and> retry_times limit_on_wait = 1 \<and>
   retried (AsyncChallenger None 1) < retried limit_on_wait"
  using retry_counter_bounded[OF disjI1[OF run_limit_on_wait]]
  by (simp add: AsyncChallenger_def)

text \<open>
  The counter does exceed the limit when a challenger is used again after the limit
  was reached: with \<open>retry_times = 1\<close> the second call ends with \<open>retried = 2\<close>.
\<close>

theorem retry_counter_exceeds_limit:
  "solve_recaptcha world_no_match 1 (AsyncChallenger None 1)
     = Some (Inl RecursionError, limit_once) \<and>
   solve_recaptcha world_no_match 1 limit_once = Some (Inl RecursionError, limit_twice) \<and>
   retry_times limit_twice < retried limit_twice"
  using run_limit_once run_limit_twice by (simp add: limit_twice_def)

section \<open>The dynamic loop\<close>

lemma verify_passes_no_detect:
  "no_detect q \<Longrightarrow> verify_passes before p a (q @ es) = verify_passes (last (before # q)) p a es"
  by (induction q arbitrary: before) (auto simp: no_detect_def)

lemma click_coordinates_events:
  "\<exists>cs. trace (click_coordinates w coords s) = trace s @ cs \<and> no_detect cs"
proof (induction coords arbitrary: s)
  case Nil
  then show ?case by (simp add: no_detect_def)
next
  case (Cons c coords)
  obtain x y where c: "c = (x, y)" by (cases c)
  let ?s1 = "await w (MouseClick x y) s"
  let ?s2 = "case click_timeout ?s1 of None \<Rightarrow> ?s1
             | Some t \<Rightarrow> if t \<noteq> 0 then wait_for_timeout w t ?s1 else ?s1"
  have "\<exists>c2. trace ?s2 = trace s @ c2 \<and> no_detect c2"
    by (auto simp: no_detect_def wait_for_timeout_def split: option.splits)
  then obtain c2 where c2: "trace ?s2 = trace s @ c2" "no_detect c2" by blast
  from Cons.IH[of ?s2] obtain cs where
    cs: "trace (click_coordinates w coords ?s2) = trace ?s2 @ cs" "no_detect cs" by blast
  have "no_detect (c2 @ cs)" using c2(2) cs(2) by (auto simp: no_detect_def)
  moreover have "trace (click_coordinates w (c # coords) s) = trace s @ (c2 @ cs)"
    using c2(1) cs(1) by (simp add: c Let_def)
  ultimately have "trace (click_coordinates w (c # coords) s) = trace s @ (c2 @ cs)
      \<and> no_detect (c2 @ cs)" by blast
  then show ?case by blast
qed

lemma detect_tiles_verify_pass:
  "\<exists>cs. detect_tiles w H p a True s
          = Some (Inr (Flag (True \<in> set (fst (detect w p (screenshot_at w (clock s)) a)))),
                  if True \<in> set (fst (detect w p (screenshot_at w (clock s)) a))
                  then click_coordinates w (snd (detect w p (screenshot_at w (clock s)) a))
                         (await w Screenshot (log (DetectTiles p a True) s))
                  else await w Screenshot (log (DetectTiles p a True) s))
        \<and> trace (if True \<in> set (fst (detect w p (screenshot_at w (clock s)) a))
                  then click_coordinates w (snd (detect w p (screenshot_at w (clock s)) a))
                         (await w Screenshot (log (DetectTiles p a True) s))
                  else await w Screenshot (log (DetectTiles p a True) s))
            = trace s @ DetectTiles p a True # Screenshot # cs
        \<and> no_detect cs"
proof -
  let ?s1 = "await w Screenshot (log (DetectTiles p a True) s)"
  let ?d = "detect w p (screenshot_at w (clock s)) a"
  from click_coordinates_events[of w "snd ?d" ?s1] obtain cs where
    cs: "trace (click_coordinates w (snd ?d) ?s1) = trace ?s1 @ cs" "no_detect cs" by blast
  show ?thesis
  proof (cases "True \<in> set (fst ?d)")
    case True
    then show ?thesis using cs
      by (intro exI[of _ cs]) (simp add: detect_tiles_def Let_def split_beta)
  next
    case False
    then show ?thesis
      by (intro exI[of _ "[]"]) (simp add: detect_tiles_def Let_def split_beta no_detect_def)
  qed
qed

lemma dynamic_loop_passes:
  "dynamic_loop w n H p a v s = Some (r, s') \<Longrightarrow>
     (\<exists>v'. r = Inr v' \<and> \<not> truthy v') \<and>
     (\<exists>evs. trace s' = trace s @ evs \<and> (\<forall>before. verify_passes before p a evs))"
proof (induction n arbitrary: v s)
  case 0
  then show ?case by (auto split: if_splits)
next
  case (Suc n)
  show ?case
  proof (cases "truthy v")
    case False
    with Suc.prems show ?thesis by auto
  next
    case True
    let ?s1 = "wait_for_timeout w 5000 s"
    from detect_tiles_verify_pass[of w H p a ?s1] obtain b s2 cs where
      d: "detect_tiles w H p a True ?s1 = Some (Inr (Flag b), s2)"
      and t: "trace s2 = trace ?s1 @ DetectTiles p a True # Screenshot # cs"
      and nd: "no_detect cs" by blast
    from Suc.prems True d have "dynamic_loop w n H p a (Flag b) s2 = Some (r, s')" by simp
    from Suc.IH[OF this] obtain evs where
      r: "\<exists>v'. r = Inr v' \<and> \<not> truthy v'"
      and e: "trace s' = trace s2 @ evs" "\<And>before. verify_passes before p a evs" by blast
    let ?all = "WaitForTimeout 5000 # DetectTiles p a True # Screenshot # cs @ evs"
    have "trace s' = trace s @ ?all" using e(1) t by (simp add: wait_for_timeout_def)
    moreover have "verify_passes before p a ?all" for before
      using verify_passes_no_detect[OF nd, of Screenshot p a evs] e(2) by simp
    ultimately show ?thesis using r by blast
  qed
qed

lemma dynamic_loop_never_ends:
  assumes "\<forall>img. True \<in> set (fst (detect w p img a))"
  shows "truthy v \<Longrightarrow> dynamic_loop w n H p a v s = None"
proof (induction n arbitrary: v s)
  case 0
  then show ?case by simp
next
  case (Suc n)
  let ?s1 = "wait_for_timeout w 5000 s"
  from detect_tiles_verify_pass[of w H p a ?s1] assms obtain s2 where
    "detect_tiles w H p a True ?s1 = Some (Inr (Flag True), s2)" by auto
  with Suc show ?case by simp
qed

lemma dynamic_loop_first_no_match:
  assumes "truthy v"
    and "True \<notin> set (fst (detect w p (screenshot_at w (Suc (clock s))) a))"
  shows "dynamic_loop w (Suc n) H p a v s
           = Some (Inr (Flag False),
                   await w Screenshot (log (DetectTiles p a True) (wait_for_timeout w 5000 s)))"
proof -
  have "clock (wait_for_timeout w 5000 s) = Suc (clock s)" by (simp add: wait_for_timeout_def)
  with assms(2) have
    "detect_tiles w H p a True (wait_for_timeout w 5000 s)
       = Some (Inr (Flag False),
               await w Screenshot (log (DetectTiles p a True) (wait_for_timeout w 5000 s)))"
    by (simp add: detect_tiles_def Let_def split_beta)
  with assms(1) show ?thesis by (cases n) simp_all
qed

section \<open>The token on a label that does not resolve\<close>

lemma label_timeout_checks_page_only:
  assumes "text_content_at w (clock s) = TimeoutError"
  shows "handle_recaptcha w (Suc n) s =
           (let s1 = await w TextContent (log HandleRecaptcha s);
                (r, s2) = check_result w s1;
                failed = Some (Inr (Flag False),
                               log (Print ''[ERROR] reCaptcha Frame did not load.'') s2)
            in case r of
                 None \<Rightarrow> failed
               | Some token \<Rightarrow> if token \<noteq> [] then Some (Inr (Str token), s2) else failed)"
  using assms by (simp add: cycle_def text_content_def Let_def)

text \<open>
  C7. The token captured by the network observer is not looked at when the label does
  not resolve: here \<open>captcha_token\<close> holds the token when the second cycle starts, the
  page accessors raise, and \<open>solve_recaptcha\<close> returns false.
\<close>

theorem captured_token_not_returned:
  "solve_recaptcha world_late_token 2 (AsyncChallenger None 15)
     = Some (Inr (Flag False), token_ignored) \<and>
   captcha_token token_ignored = ''03AGdBq2''"
  using run_token_ignored by (simp add: token_ignored_def)

section \<open>The grid polling\<close>

lemma poll_loop_counts:
  assumes "tiles = tile_count_at w t" "clock s = Suc t" "poll_loop w m tiles s = (c, s')"
  shows "\<exists>k\<le>m. c = tile_count_at w (t + 2 * k)
           \<and> (\<forall>j<k. tile_count_at w (t + 2 * j) \<noteq> 9 \<and> tile_count_at w (t + 2 * j) \<noteq> 16)
           \<and> (k < m \<longrightarrow> c = 9 \<or> c = 16)
           \<and> trace s' = trace s @ concat (replicate k [WaitForTimeout 1000, QueryTiles])"
  using assms
proof (induction m arbitrary: tiles t s)
  case 0
  then show ?case by simp
next
  case (Suc m)
  show ?case
  proof (cases "tiles = 9 \<or> tiles = 16")
    case True
    with Suc.prems have "c = tile_count_at w (t + 2 * 0)" "s' = s" by auto
    then show ?thesis using True Suc.prems(1) by (intro exI[of _ 0]) auto
  next
    case False
    let ?s1 = "wait_for_timeout w 1000 s"
    let ?s2 = "await w QueryTiles ?s1"
    let ?t' = "t + 2"
    have q: "query_tiles w ?s1 = (tile_count_at w ?t', ?s2)"
      using Suc.prems(2) by (simp add: query_tiles_def wait_for_timeout_def)
    have c2: "clock ?s2 = Suc ?t'" using Suc.prems(2) by (simp add: wait_for_timeout_def)
    from Suc.prems(3) False q have "poll_loop w m (tile_count_at w ?t') ?s2 = (c, s')" by simp
    from Suc.IH[OF refl c2 this] obtain k where k: "k \<le> m"
      "c = tile_count_at w (?t' + 2 * k)"
      "\<forall>j<k. tile_count_at w (?t' + 2 * j) \<noteq> 9 \<and> tile_count_at w (?t' + 2 * j) \<noteq> 16"
      "k < m \<longrightarrow> c = 9 \<or> c = 16"
      "trace s' = trace ?s2 @ concat (replicate k [WaitForTimeout 1000, QueryTiles])"
      by blast
    have before: "tile_count_at w (t + 2 * j) \<noteq> 9 \<and> tile_count_at w (t + 2 * j) \<noteq> 16"
      if "j < Suc k" for j
    proof (cases j)
      case 0
      with False Suc.prems(1) show ?thesis by simp
    next
      case (Suc j')
      with that k(3) have "tile_count_at w (?t' + 2 * j') \<noteq> 9 \<and> tile_count_at w (?t' + 2 * j') \<noteq> 16"
        by simp
      then show ?thesis by (simp add: Suc)
    qed
    have "Suc k \<le> Suc m \<and> c = tile_count_at w (t + 2 * Suc k)
          \<and> (\<forall>j<Suc k. tile_count_at w (t + 2 * j) \<noteq> 9 \<and> tile_count_at w (t + 2 * j) \<noteq> 16)
          \<and> (Suc k < Suc m \<longrightarrow> c = 9 \<or> c = 16)
          \<and> trace s' = trace s @ concat (replicate (Suc k) [WaitForTimeout 1000, QueryTiles])"
      using k before by (simp add: wait_for_timeout_def)
    then show ?thesis by blast
  qed
qed

lemma poll_tiles_counts:
  assumes "poll_tiles w s = (c, s')"
  shows "\<exists>k\<le>10. c = tile_count_at w (clock s + 2 * k)
           \<and> (\<forall>j<k. tile_count_at w (clock s + 2 * j) \<noteq> 9
                     \<and> tile_count_at w (clock s + 2 * j) \<noteq> 16)
           \<and> (k < 10 \<longrightarrow> c = 9 \<or> c = 16)
           \<and> trace s' = trace s @ QueryTiles
                 # concat (replicate k [WaitForTimeout 1000, QueryTiles])"
proof -
  let ?s1 = "await w QueryTiles s"
  from assms have "poll_loop w 10 (tile_count_at w (clock s)) ?s1 = (c, s')"
    by (simp add: poll_tiles_def query_tiles_def)
  from poll_loop_counts[OF refl _ this] show ?thesis by simp
qed

lemma cycle_reaches_detection:
  assumes "text_content_at w (clock s) = Text (Some prompt)" and "prompt \<noteq> []"
  shows "\<exists>k\<le>10. \<exists>s2.
           (\<forall>j<k. tile_count_at w (Suc (clock s) + 2 * j) \<noteq> 9
                  \<and> tile_count_at w (Suc (clock s) + 2 * j) \<noteq> 16) \<and>
           (k < 10 \<longrightarrow> tile_count_at w (Suc (clock s) + 2 * k) = 9
                      \<or> tile_count_at w (Suc (clock s) + 2 * k) = 16) \<and>
           trace s2 = trace s @ [HandleRecaptcha, TextContent, QueryTiles]
                        @ concat (replicate k [WaitForTimeout 1000, QueryTiles]) \<and>
           handle_recaptcha w (Suc n) s =
             (case detect_tiles w (handle_recaptcha w n) prompt
                     (tile_count_at w (Suc (clock s) + 2 * k) = 16)
                     (tile_count_at w (Suc (clock s) + 2 * k) = 16) s2 of
                None \<Rightarrow> None
              | Some (Inl e, s3) \<Rightarrow> Some (Inl e, s3)
              | Some (Inr first_pass, s3) \<Rightarrow>
                  after_detection w (handle_recaptcha w n) n prompt
                    (tile_count_at w (Suc (clock s) + 2 * k) = 16) first_pass s3)"
proof -
  let ?s1 = "await w TextContent (log HandleRecaptcha s)"
  obtain c s2 where p: "poll_tiles w ?s1 = (c, s2)" by (cases "poll_tiles w ?s1")
  from poll_tiles_counts[OF p] obtain k where k: "k \<le> 10"
    "c = tile_count_at w (Suc (clock s) + 2 * k)"
    "\<forall>j<k. tile_count_at w (Suc (clock s) + 2 * j) \<noteq> 9
           \<and> tile_count_at w (Suc (clock s) + 2 * j) \<noteq> 16"
    "k < 10 \<longrightarrow> c = 9 \<or> c = 16"
    "trace s2 = trace ?s1 @ QueryTiles # concat (replicate k [WaitForTimeout 1000, QueryTiles])"
    by auto
  have t: "trace s2 = trace s @ [HandleRecaptcha, TextContent, QueryTiles]
                        @ concat (replicate k [WaitForTimeout 1000, QueryTiles])"
    using k(5) by simp
  have "handle_recaptcha w (Suc n) s =
          (case detect_tiles w (handle_recaptcha w n) prompt (c = 16) (c = 16) s2 of
             None \<Rightarrow> None
           | Some (Inl e, s3) \<Rightarrow> Some (Inl e, s3)
           | Some (Inr first_pass, s3) \<Rightarrow>
               after_detection w (handle_recaptcha w n) n prompt (c = 16) first_pass s3)"
    using assms p by (simp add: cycle_def text_content_def Let_def)
  with k t show ?thesis by blast
qed

text \<open>
  C6. In a cycle whose prompt has loaded, the grid is polled until a count of 9 or 16 is
  seen, with at most ten waits of one second after the first count; the counts are read
  at the clock values \<open>clock s + 1\<close>, \<open>clock s + 3\<close> and so on. Whatever the last
  count is, the cycle goes on to \<open>detect_tiles\<close>, and the area variant (which is also
  the verify flag of that first pass) is chosen exactly when the last count is 16.
\<close>

theorem area_variant_from_last_count:
  assumes "text_content_at w (clock s) = Text (Some prompt)" and "prompt \<noteq> []"
  shows "\<exists>k\<le>10.
           (\<forall>j<k. tile_count_at w (Suc (clock s) + 2 * j) \<noteq> 9
                  \<and> tile_count_at w (Suc (clock s) + 2 * j) \<noteq> 16) \<and>
           (k < 10 \<longrightarrow> tile_count_at w (Suc (clock s) + 2 * k) = 9
                      \<or> tile_count_at w (Suc (clock s) + 2 * k) = 16) \<and>
           (\<exists>s2. trace s2 = trace s @ [HandleRecaptcha, TextContent, QueryTiles]
                                @ concat (replicate k [WaitForTimeout 1000, QueryTiles]) \<and>
                 handle_recaptcha w (Suc n) s =
                   (case detect_tiles w (handle_recaptcha w n) prompt
                           (tile_count_at w (Suc (clock s) + 2 * k) = 16)
                           (tile_count_at w (Suc (clock s) + 2 * k) = 16) s2 of
                      None \<Rightarrow> None
                    | Some (Inl e, s3) \<Rightarrow> Some (Inl e, s3)
                    | Some (Inr first_pass, s3) \<Rightarrow>
                        after_detection w (handle_recaptcha w n) n prompt
                          (tile_count_at w (Suc (clock s) + 2 * k) = 16) first_pass s3)) \<and>
           (\<forall>r s'. handle_recaptcha w (Suc n) s = Some (r, s') \<longrightarrow>
              (\<exists>rest. new_events s s' =
                 [HandleRecaptcha, TextContent, QueryTiles]
                 @ concat (replicate k [WaitForTimeout 1000, QueryTiles])
                 @ DetectTiles prompt (tile_count_at w (Suc (clock s) + 2 * k) = 16)
                     (tile_count_at w (Suc (clock s) + 2 * k) = 16)
                   # Screenshot # rest))"
proof -
  let ?H = "handle_recaptcha w n"
  from cycle_reaches_detection[OF assms, of n] obtain k s2 where k: "k \<le> 10"
    "\<forall>j<k. tile_count_at w (Suc (clock s) + 2 * j) \<noteq> 9
           \<and> tile_count_at w (Suc (clock s) + 2 * j) \<noteq> 16"
    "k < 10 \<longrightarrow> tile_count_at w (Suc (clock s) + 2 * k) = 9
                \<or> tile_count_at w (Suc (clock s) + 2 * k) = 16"
    and t2: "trace s2 = trace s @ [HandleRecaptcha, TextContent, QueryTiles]
                        @ concat (replicate k [WaitForTimeout 1000, QueryTiles])"
    and eq: "handle_recaptcha w (Suc n) s =
             (case detect_tiles w ?H prompt
                     (tile_count_at w (Suc (clock s) + 2 * k) = 16)
                     (tile_count_at w (Suc (clock s) + 2 * k) = 16) s2 of
                None \<Rightarrow> None
              | Some (Inl e, s3) \<Rightarrow> Some (Inl e, s3)
              | Some (Inr first_pass, s3) \<Rightarrow>
                  after_detection w ?H n prompt
                    (tile_count_at w (Suc (clock s) + 2 * k) = 16) first_pass s3)"
    by blast
  let ?a = "tile_count_at w (Suc (clock s) + 2 * k) = 16"
  have tr: "\<exists>rest. new_events s s' =
              [HandleRecaptcha, TextContent, QueryTiles]
              @ concat (replicate k [WaitForTimeout 1000, QueryTiles])
              @ DetectTiles prompt ?a ?a # Screenshot # rest"
    if run: "handle_recaptcha w (Suc n) s = Some (r, s')" for r s'
  proof -
    from run eq obtain rd s3 where d: "detect_tiles w ?H prompt ?a ?a s2 = Some (rd, s3)"
      by (cases "detect_tiles w ?H prompt ?a ?a s2") auto
    from detect_tiles_trace[OF handle_recaptcha_extends d] obtain rest3 where
      t3: "trace s3 = trace s2 @ DetectTiles prompt ?a ?a # Screenshot # rest3" by blast
    have "extends s3 s'"
    proof (cases rd)
      case (Inl e)
      with run eq d have "s' = s3" by simp
      then show ?thesis by simp
    next
      case (Inr v)
      with run eq d have "after_detection w ?H n prompt ?a v s3 = Some (r, s')" by simp
      from after_detection_extends[OF handle_recaptcha_extends this] show ?thesis .
    qed
    then obtain rest where "trace s' = trace s3 @ rest" by (auto simp: extends_def)
    with t3 t2 have "trace s' = trace s @
        ([HandleRecaptcha, TextContent, QueryTiles]
         @ concat (replicate k [WaitForTimeout 1000, QueryTiles])
         @ DetectTiles prompt ?a ?a # Screenshot # (rest3 @ rest))"
      by simp
    from new_events_append[OF this] show ?thesis by blast
  qed
  from k t2 eq tr show ?thesis by blast
qed

theorem area_variant_from_last_count_witness:
  "\<exists>k\<le>10. \<exists>rest. trace area_solved =
      [HandleRecaptcha, TextContent, QueryTiles]
      @ concat (replicate k [WaitForTimeout 1000, QueryTiles])
      @ DetectTiles ''cars'' (tile_count_at world_slow_grid (Suc 0 + 2 * k) = 16)
          (tile_count_at world_slow_grid (Suc 0 + 2 * k) = 16)
        # Screenshot # rest"
proof -
  have h: "text_content_at world_slow_grid (clock (AsyncChallenger None 15)) = Text (Some ''cars'')"
    "''cars'' \<noteq> []"
    by (simp_all add: world_slow_grid_def AsyncChallenger_def)
  have c: "clock (AsyncChallenger None 15) = 0"
    "new_events (AsyncChallenger None 15) area_solved = trace area_solved"
    by (simp_all add: AsyncChallenger_def new_events_def)
  from area_variant_from_last_count[OF h, of 0] obtain k where k: "k \<le> 10"
    and tr: "\<forall>r s'. handle_recaptcha world_slow_grid (Suc 0) (AsyncChallenger None 15)
                   = Some (r, s') \<longrightarrow>
              (\<exists>rest. new_events (AsyncChallenger None 15) s' =
                 [HandleRecaptcha, TextContent, QueryTiles]
                 @ concat (replicate k [WaitForTimeout 1000, QueryTiles])
                 @ DetectTiles ''cars''
                     (tile_count_at world_slow_grid
                        (Suc (clock (AsyncChallenger None 15)) + 2 * k) = 16)
                     (tile_count_at world_slow_grid
                        (Suc (clock (AsyncChallenger None 15)) + 2 * k) = 16)
                   # Screenshot # rest)"
    by blast
  from tr run_area_solved[unfolded One_nat_def] obtain rest where
    "new_events (AsyncChallenger None 15) area_solved =
       [HandleRecaptcha, TextContent, QueryTiles]
       @ concat (replicate k [WaitForTimeout 1000, QueryTiles])
       @ DetectTiles ''cars''
           (tile_count_at world_slow_grid (Suc (clock (AsyncChallenger None 15)) + 2 * k) = 16)
           (tile_count_at world_slow_grid (Suc (clock (AsyncChallenger None 15)) + 2 * k) = 16)
         # Screenshot # rest"
    by blast
  with k show ?thesis unfolding c by blast
qed

section \<open>The entry of \<open>solve_recaptcha\<close> and the calls that run to the limit\<close>

lemma solve_recaptcha_visible:
  assumes "label_visible_at w (Suc (clock s))"
  shows "solve_recaptcha w n s =
           handle_recaptcha w n
             (wait_for_timeout w 2000
                (await w WaitForLabel
                   (await w (Click ''.recaptcha-checkbox-border'') (reset_values s))))"
  using assms
  by (simp add: solve_recaptcha_def click_checkbox_def click_def check_captcha_visible_def
      Let_def split_beta)

lemma solve_recaptcha_not_visible:
  assumes "\<not> label_visible_at w (Suc (clock s))"
  shows "solve_recaptcha w n s =
           Some (Inr (Flag False),
                 log (Print ''[ERROR] reCaptcha Challenge is not visible.'')
                   (await w WaitForLabel
                      (await w (Click ''.recaptcha-checkbox-border'') (reset_values s))))"
  using assms
  by (simp add: solve_recaptcha_def click_checkbox_def click_def check_captcha_visible_def
      Let_def split_beta)

lemma empty_prompt_raises:
  assumes "text_content_at w (clock s) = Text None \<or> text_content_at w (clock s) = Text (Some [])"
  shows "handle_recaptcha w (Suc n) s
           = Some (Inl ValueError, await w TextContent (log HandleRecaptcha s))"
  using assms by (auto simp: cycle_def text_content_def Let_def)

lemma solve_recaptcha_empty_prompt:
  assumes "label_visible_at w (Suc (clock s))"
    and "text_content_at w (clock s + 3) = Text None
         \<or> text_content_at w (clock s + 3) = Text (Some [])"
  shows "solve_recaptcha w (Suc n) s =
           Some (Inl ValueError,
                 await w TextContent
                   (log HandleRecaptcha
                      (wait_for_timeout w 2000
                         (await w WaitForLabel
                            (await w (Click ''.recaptcha-checkbox-border'') (reset_values s))))))"
proof -
  let ?sh = "wait_for_timeout w 2000
               (await w WaitForLabel
                  (await w (Click ''.recaptcha-checkbox-border'') (reset_values s)))"
  have "clock ?sh = clock s + 3" by (simp add: wait_for_timeout_def)
  with assms(2) have "text_content_at w (clock ?sh) = Text None
      \<or> text_content_at w (clock ?sh) = Text (Some [])" by simp
  from empty_prompt_raises[OF this] solve_recaptcha_visible[OF assms(1)] show ?thesis
    by simp
qed



lemma retry_steps:
  assumes "retried s + 1 < retry_times s"
  shows "\<exists>s0. dynamic s0 = False \<and> captcha_token s0 = [] \<and> retried s0 = retried s + 1
           \<and> retry_times s0 = retry_times s \<and> clock s0 = clock s
           \<and> trace s0 = trace s @ (if verify then [ResetValues]
                  else [ResetValues, Print ''[INFO] Reloading Captcha and Retrying''])
           \<and> retry w H verify s
               = (if click_times_out_at w (clock s)
                       (if verify then ''#recaptcha-verify-button''
                        else ''#recaptcha-reload-button'')
                  then Some (Inl PlaywrightTimeoutError,
                             await w (Click (if verify then ''#recaptcha-verify-button''
                                             else ''#recaptcha-reload-button'')) s0)
                  else H (await w (Click (if verify then ''#recaptcha-verify-button''
                                          else ''#recaptcha-reload-button'')) s0))"
proof (cases verify)
  case True
  show ?thesis
    by (rule exI[of _ "reset_values (s\<lparr>retried := retried s + 1\<rparr>)"])
       (use assms True in \<open>simp add: retry_def Let_def split_beta click_def\<close>)
next
  case False
  show ?thesis
    by (rule exI[of _ "log (Print ''[INFO] Reloading Captcha and Retrying'')
               (reset_values (s\<lparr>retried := retried s + 1\<rparr>))"])
       (use assms False in \<open>simp add: retry_def Let_def split_beta click_def\<close>)
qed

lemma token_wait_exhausted_restart:
  assumes "fst (token_wait w 5 (submit w s)) = None"
  shows "quiet_step s (snd (token_wait w 5 (submit w s))) \<and>
         submit_and_wait w H (Flag b) s
           = (if retry_times s \<le> retried s + 1
              then Some (Inl RecursionError,
                         (snd (token_wait w 5 (submit w s)))\<lparr>retried := retried s + 1\<rparr>)
              else H ((snd (token_wait w 5 (submit w s)))\<lparr>retried := retried s + 1\<rparr>))"
proof -
  let ?s2 = "snd (token_wait w 5 (submit w s))"
  have q: "quiet_step s ?s2" using quiet_step_trans[OF quiet_step_submit token_wait_quiet] .
  then have k: "retried ?s2 = retried s" "retry_times ?s2 = retry_times s"
    by (auto simp: quiet_step_def)
  from assms k have "submit_and_wait w H (Flag b) s
           = (if retry_times s \<le> retried s + 1
              then Some (Inl RecursionError, ?s2\<lparr>retried := retried s + 1\<rparr>)
              else H (?s2\<lparr>retried := retried s + 1\<rparr>))"
    by (simp add: submit_and_wait_def Let_def split_beta)
  with q show ?thesis by blast
qed






section \<open>The retry counter over the lifetime of the challenger\<close>




end
